theory Spec2Isabelle
  imports Complex_Main "HOL-Library.Word" "HOL-Library.Monad_Syntax" "HOL-Library.Multiset"
begin

section \<open>Strings of the scripting engine\<close>

text \<open>
  The module \<^verbatim>\<open>assets/js/search.js\<close> works on the engine's strings: sequences of 16-bit
  code units, whose \<^verbatim>\<open>length\<close> counts code units. A string is a list of 16-bit words;
  \<open>js\<close> turns an ASCII literal into one.
\<close>

type_synonym jsstring = "16 word list"

definition js :: "string \<Rightarrow> jsstring" where
  "js s = map of_char s"

text \<open>The class \<^verbatim>\<open>\s\<close> of a regular expression, which is also what \<^verbatim>\<open>trim\<close> strips.\<close>

definition isWhiteSpace :: "16 word \<Rightarrow> bool" where
  "isWhiteSpace c \<longleftrightarrow>
     c = 0x09 \<or> c = 0x0A \<or> c = 0x0B \<or> c = 0x0C \<or> c = 0x0D \<or> c = 0x20 \<or> c = 0xA0 \<or>
     c = 0x1680 \<or> (0x2000 \<le> c \<and> c \<le> 0x200A) \<or> c = 0x2028 \<or> c = 0x2029 \<or>
     c = 0x202F \<or> c = 0x205F \<or> c = 0x3000 \<or> c = 0xFEFF"

text \<open>The class \<^verbatim>\<open>[\x00-\x1F\x7F]\<close>.\<close>

definition isControl :: "16 word \<Rightarrow> bool" where
  "isControl c \<longleftrightarrow> c \<le> 0x1F \<or> c = 0x7F"

text \<open>\<^verbatim>\<open>s.startsWith(w)\<close> and \<^verbatim>\<open>s.includes(w)\<close> on strings.\<close>

fun startsWith :: "'a list \<Rightarrow> 'a list \<Rightarrow> bool" where
  "startsWith s [] = True"
| "startsWith [] (w # ws) = False"
| "startsWith (c # cs) (w # ws) = (c = w \<and> startsWith cs ws)"

fun includes_str :: "'a list \<Rightarrow> 'a list \<Rightarrow> bool" where
  "includes_str [] w = (w = [])"
| "includes_str (c # cs) w = (startsWith (c # cs) w \<or> includes_str cs w)"

text \<open>\<^verbatim>\<open>parts.join(sep)\<close> on an array of strings.\<close>

fun join :: "'a list \<Rightarrow> 'a list list \<Rightarrow> 'a list" where
  "join sep [] = []"
| "join sep [x] = x"
| "join sep (x # y # ys) = x @ sep @ join sep (y # ys)"

text \<open>
  \<^verbatim>\<open>s.split(/\s+/)\<close>: the pieces between maximal runs of white space; a run at either end
  leaves an empty piece there, and the empty string gives one empty piece. The flag says
  that the scan is inside a run, \<open>cur\<close> is the piece read so far, reversed.
\<close>

fun splitScan :: "bool \<Rightarrow> jsstring \<Rightarrow> jsstring \<Rightarrow> jsstring list" where
  "splitScan inRun cur [] = [rev cur]"
| "splitScan inRun cur (c # cs) =
     (if isWhiteSpace c
      then (if inRun then splitScan True [] cs else rev cur # splitScan True [] cs)
      else splitScan False (c # cur) cs)"

definition split_ws :: "jsstring \<Rightarrow> jsstring list" where
  "split_ws s = splitScan False [] s"

text \<open>\<^verbatim>\<open>s.trim()\<close> and \<^verbatim>\<open>s.replace(/\s+/g, ' ')\<close>.\<close>

definition trim :: "jsstring \<Rightarrow> jsstring" where
  "trim s = rev (dropWhile isWhiteSpace (rev (dropWhile isWhiteSpace s)))"

fun replaceRuns :: "bool \<Rightarrow> jsstring \<Rightarrow> jsstring" where
  "replaceRuns inRun [] = []"
| "replaceRuns inRun (c # cs) =
     (if isWhiteSpace c
      then (if inRun then replaceRuns True cs else 0x20 # replaceRuns True cs)
      else c # replaceRuns False cs)"

text \<open>
  The host of the module: the engine's \<^verbatim>\<open>String.prototype.toLowerCase\<close>, whose case
  table is not part of the repository and is therefore a parameter, and whether
  \<^verbatim>\<open>announceResults\<close> fails (it dereferences \<^verbatim>\<open>document.body\<close> unguarded, where the
  other helpers of the page test what they look up).
\<close>

record host =
  toLowerCase :: "jsstring \<Rightarrow> jsstring"
  announceThrows :: bool

text \<open>
  The part of the case table used to run the module on examples: Basic Latin, Latin-1
  Supplement, and U+0130, the one code unit whose lower case is two code units
  (U+0069 U+0307). Every other code unit is left as it is.
\<close>

definition lowerUnit :: "16 word \<Rightarrow> jsstring" where
  "lowerUnit c =
     (if 0x41 \<le> c \<and> c \<le> 0x5A then [c + 0x20]
      else if 0xC0 \<le> c \<and> c \<le> 0xDE \<and> c \<noteq> 0xD7 then [c + 0x20]
      else if c = 0x130 then [0x69, 0x307]
      else [c])"

definition latinLower :: "jsstring \<Rightarrow> jsstring" where
  "latinLower s = concat (map lowerUnit s)"

definition browser :: host where
  "browser = \<lparr>toLowerCase = latinLower, announceThrows = False\<rparr>"

section \<open>Tools and the module state\<close>

text \<open>
  The field \<^verbatim>\<open>alternatives_to\<close> of a tool, which only \<^verbatim>\<open>buildSearchIndex\<close> reads: absent
  (or falsy), an array of strings, or a truthy value of another type, such as a number, a
  string or an array with an element that is not a string. On the last
  \<^verbatim>\<open>buildSearchIndex\<close> throws: at the spread when the value cannot be iterated, at
  \<^verbatim>\<open>map\<close> or at \<^verbatim>\<open>toLowerCase\<close> otherwise.
\<close>

datatype alternatives = Absent | Strings "jsstring list" | WrongType

text \<open>
  A tool of \<^verbatim>\<open>assets/data/tools.json\<close>: every field may be missing; text fields are
  strings, and \<^verbatim>\<open>tags\<close> and \<^verbatim>\<open>platforms\<close>, which \<^verbatim>\<open>performSearch\<close> reads as well, are
  arrays of strings.
\<close>

record tool =
  tool_id :: "jsstring option"
  tool_name :: "jsstring option"
  tool_tagline :: "jsstring option"
  tool_description :: "jsstring option"
  tool_license :: "jsstring option"
  tool_tags :: "jsstring list option"
  tool_platforms :: "jsstring list option"
  tool_alternatives_to :: alternatives
  tool_category :: "jsstring option"

text \<open>
  An element of the array handed to \<^verbatim>\<open>init\<close>: \<^verbatim>\<open>undefined\<close>, \<^verbatim>\<open>null\<close>, a primitive
  value (of which only its truthiness matters here) or an object.
\<close>

datatype entry = Undefined | Null | Primitive bool | Object tool

text \<open>Reading a property: a primitive has none of the fields of a tool.\<close>

definition get :: "(tool \<Rightarrow> 'a option) \<Rightarrow> entry \<Rightarrow> 'a option" where
  "get f e = (case e of Object t \<Rightarrow> f t | _ \<Rightarrow> None)"

fun truthy :: "entry \<Rightarrow> bool" where
  "truthy Undefined = False"
| "truthy Null = False"
| "truthy (Primitive b) = b"
| "truthy (Object t) = True"

text \<open>\<^verbatim>\<open>typeof e === 'object'\<close>, which holds of \<^verbatim>\<open>null\<close> too.\<close>

fun typeofObject :: "entry \<Rightarrow> bool" where
  "typeofObject Undefined = False"
| "typeofObject Null = True"
| "typeofObject (Primitive b) = False"
| "typeofObject (Object t) = True"

text \<open>Truthiness of an optional string; \<^verbatim>\<open>v || ''\<close> and \<^verbatim>\<open>v || []\<close>.\<close>

definition truthyStr :: "jsstring option \<Rightarrow> bool" where
  "truthyStr v = (case v of None \<Rightarrow> False | Some s \<Rightarrow> s \<noteq> [])"

definition orEmpty :: "jsstring option \<Rightarrow> jsstring" where
  "orEmpty v = (case v of None \<Rightarrow> [] | Some s \<Rightarrow> s)"

definition orNil :: "'a list option \<Rightarrow> 'a list" where
  "orNil v = (case v of None \<Rightarrow> [] | Some xs \<Rightarrow> xs)"

text \<open>\<^verbatim>\<open>tool.alternatives_to\<close>, and \<^verbatim>\<open>tool.alternatives_to || []\<close> where that is an array.\<close>

definition alternativesOf :: "entry \<Rightarrow> alternatives" where
  "alternativesOf e = (case e of Object t \<Rightarrow> tool_alternatives_to t | _ \<Rightarrow> Absent)"

definition strings :: "alternatives \<Rightarrow> jsstring list" where
  "strings v = (case v of Strings xs \<Rightarrow> xs | _ \<Rightarrow> [])"

text \<open>A value of the search index.\<close>

record indexed =
  idx_text :: jsstring
  idx_words :: "jsstring list"
  idx_alternatives :: "jsstring list"

text \<open>
  The state of the module: the fields of the object \<^verbatim>\<open>state\<close> and the variables
  \<^verbatim>\<open>tools\<close>, \<^verbatim>\<open>onResultsCallback\<close>, \<^verbatim>\<open>lastProcessedKey\<close> and \<^verbatim>\<open>searchIndex\<close>.
  The index is keyed by the value of \<^verbatim>\<open>tool.id\<close>, \<open>None\<close> being \<^verbatim>\<open>undefined\<close>.
  Of the callback only whether it throws on a result list is kept (\<open>True\<close>: it throws).
\<close>

record modstate =
  query :: jsstring
  category :: jsstring
  platforms :: "jsstring list"
  tags :: "jsstring list"
  isInitialized :: bool
  tools :: "entry list"
  onResultsCallback :: "(entry list \<Rightarrow> bool) option"
  lastProcessedKey :: "jsstring option"
  searchIndex :: "jsstring option \<Rightarrow> indexed option"

definition initialState :: modstate where
  "initialState =
     \<lparr>query = [], category = js ''all'', platforms = [], tags = [], isInitialized = False,
      tools = [], onResultsCallback = None, lastProcessedKey = None,
      searchIndex = Map.empty\<rparr>"

section \<open>sanitizeQuery\<close>

text \<open>The argument is \<open>None\<close> for \<^verbatim>\<open>null\<close> and \<^verbatim>\<open>undefined\<close>, a string otherwise.\<close>

definition MAX_QUERY_LENGTH :: nat where
  "MAX_QUERY_LENGTH = 100"

definition sanitizeQuery :: "host \<Rightarrow> jsstring option \<Rightarrow> jsstring" where
  "sanitizeQuery h input =
     (case input of
        None \<Rightarrow> []
      | Some s \<Rightarrow>
          (let query = replaceRuns False (trim (filter (\<lambda>c. \<not> isControl c) s));
               query = (if length query > MAX_QUERY_LENGTH then take MAX_QUERY_LENGTH query
                        else query)
           in toLowerCase h query))"

section \<open>levenshteinDistance\<close>

text \<open>
  Arrays grow by assignment at their length. \<open>readAt\<close> is \<open>None\<close> where the engine
  reads \<^verbatim>\<open>undefined\<close>, \<open>assignAt\<close> is \<open>None\<close> where the assignment would leave a hole;
  a run of the distance function that meets either leaves the model and is \<open>None\<close>.
\<close>

definition readAt :: "'a list \<Rightarrow> nat \<Rightarrow> 'a option" where
  "readAt xs k = (if k < length xs then Some (xs ! k) else None)"

definition assignAt :: "'a list \<Rightarrow> nat \<Rightarrow> 'a \<Rightarrow> 'a list option" where
  "assignAt xs k v =
     (if k < length xs then Some (xs[k := v])
      else if k = length xs then Some (xs @ [v])
      else None)"

text \<open>\<^verbatim>\<open>s.charAt(k)\<close>: a string of one code unit, empty out of range.\<close>

definition charAt :: "'a list \<Rightarrow> nat \<Rightarrow> 'a list" where
  "charAt s k = (if k < length s then [s ! k] else [])"

text \<open>\<^verbatim>\<open>matrix[i][j]\<close> and \<^verbatim>\<open>matrix[i][j] = v\<close>.\<close>

definition cell :: "nat list list \<Rightarrow> nat \<Rightarrow> nat \<Rightarrow> nat option" where
  "cell matrix i j = do { row \<leftarrow> readAt matrix i; readAt row j }"

definition setCell :: "nat list list \<Rightarrow> nat \<Rightarrow> nat \<Rightarrow> nat \<Rightarrow> nat list list option" where
  "setCell matrix i j v =
     do { row \<leftarrow> readAt matrix i; row' \<leftarrow> assignAt row j v; assignAt matrix i row' }"

text \<open>\<^verbatim>\<open>for (let i = 0; i <= b.length; i++) matrix[i] = [i];\<close> with \<open>n\<close> for \<^verbatim>\<open>b.length\<close>.\<close>

function initRows :: "nat \<Rightarrow> nat \<Rightarrow> nat list list \<Rightarrow> nat list list option" where
  "initRows i n matrix =
     (if i \<le> n then do { m \<leftarrow> assignAt matrix i [i]; initRows (Suc i) n m }
      else Some matrix)"
  by pat_completeness auto
termination
  by (relation "measure (\<lambda>(i, n, matrix). Suc n - i)") auto

declare initRows.simps [simp del]

text \<open>\<^verbatim>\<open>for (let j = 0; j <= a.length; j++) matrix[0][j] = j;\<close> with \<open>n\<close> for \<^verbatim>\<open>a.length\<close>.\<close>

function initCols :: "nat \<Rightarrow> nat \<Rightarrow> nat list list \<Rightarrow> nat list list option" where
  "initCols j n matrix =
     (if j \<le> n then do { m \<leftarrow> setCell matrix 0 j j; initCols (Suc j) n m }
      else Some matrix)"
  by pat_completeness auto
termination
  by (relation "measure (\<lambda>(j, n, matrix). Suc n - j)") auto

declare initCols.simps [simp del]

text \<open>The inner loop over \<open>j\<close>, for one \<open>i\<close>, and the outer loop over \<open>i\<close>.\<close>

function innerLoop ::
  "'a list \<Rightarrow> 'a list \<Rightarrow> nat \<Rightarrow> nat \<Rightarrow> nat list list \<Rightarrow> nat list list option" where
  "innerLoop a b i j matrix =
     (if j \<le> length a then
        do { v \<leftarrow> (if charAt b (i - 1) = charAt a (j - 1) then cell matrix (i - 1) (j - 1)
                  else do { x \<leftarrow> cell matrix (i - 1) (j - 1);
                            y \<leftarrow> cell matrix i (j - 1);
                            z \<leftarrow> cell matrix (i - 1) j;
                            Some (min (x + 1) (min (y + 1) (z + 1))) });
             m \<leftarrow> setCell matrix i j v;
             innerLoop a b i (Suc j) m }
      else Some matrix)"
  by pat_completeness auto
termination
  by (relation "measure (\<lambda>(a, b, i, j, matrix). Suc (length a) - j)") auto

declare innerLoop.simps [simp del]

function outerLoop ::
  "'a list \<Rightarrow> 'a list \<Rightarrow> nat \<Rightarrow> nat list list \<Rightarrow> nat list list option" where
  "outerLoop a b i matrix =
     (if i \<le> length b then do { m \<leftarrow> innerLoop a b i 1 matrix; outerLoop a b (Suc i) m }
      else Some matrix)"
  by pat_completeness auto
termination
  by (relation "measure (\<lambda>(a, b, i, matrix). Suc (length b) - i)") auto

declare outerLoop.simps [simp del]

definition levenshteinDistance :: "'a list \<Rightarrow> 'a list \<Rightarrow> nat option" where
  "levenshteinDistance a b =
     (if length a = 0 then Some (length b)
      else if length b = 0 then Some (length a)
      else do { m0 \<leftarrow> initRows 0 (length b) [];
                m1 \<leftarrow> initCols 0 (length a) m0;
                m2 \<leftarrow> outerLoop a b 1 m1;
                cell m2 (length b) (length a) })"

section \<open>fuzzyMatch and calculateMatchScore\<close>

text \<open>
  Numbers that are not whole are rationals. \<open>None\<close> from the distance stands for the
  \<^verbatim>\<open>NaN\<close> that a read outside the matrix would produce: \<^verbatim>\<open>NaN > bestScore\<close> is false.
\<close>

definition FUZZY_THRESHOLD :: rat where
  "FUZZY_THRESHOLD = 6 / 10"

fun fuzzyLoop :: "'a list \<Rightarrow> 'a list list \<Rightarrow> rat \<Rightarrow> rat" where
  "fuzzyLoop qword [] bestScore = bestScore"
| "fuzzyLoop qword (word # rest) bestScore =
     (if length word < 2 then fuzzyLoop qword rest bestScore
      else if startsWith word qword then 1
      else (case levenshteinDistance qword (take (length qword + 2) word) of
              None \<Rightarrow> fuzzyLoop qword rest bestScore
            | Some distance \<Rightarrow>
                (let maxLen = max (length qword) (length word);
                     similarity = 1 - of_nat distance / of_nat maxLen
                 in fuzzyLoop qword rest
                      (if similarity > bestScore then similarity else bestScore))))"

definition fuzzyMatch :: "'a list \<Rightarrow> 'a list list \<Rightarrow> rat" where
  "fuzzyMatch qword words = fuzzyLoop qword words 0"

text \<open>
  The body of the loop over the query words: the score of one word, 0 when no branch
  applies.
\<close>

definition wordScore :: "jsstring \<Rightarrow> jsstring \<Rightarrow> indexed \<Rightarrow> jsstring \<Rightarrow> int" where
  "wordScore lowerName lowerTagline ix word =
     (if lowerName = word then 100
      else if startsWith lowerName word then 80
      else if includes_str lowerName word then 60
      else if startsWith lowerTagline word then 40
      else if includes_str lowerTagline word then 30
      else if list_ex (\<lambda>alt. includes_str alt word) (idx_alternatives ix) then 70
      else if includes_str (idx_text ix) word then 20
      else (let fuzzyScore = fuzzyMatch word (idx_words ix)
            in if fuzzyScore > FUZZY_THRESHOLD then \<lfloor>fuzzyScore * 15\<rfloor> else 0))"

text \<open>
  The loop, with the running \<^verbatim>\<open>totalScore\<close>; it returns 0 at the first word that
  scores 0.
\<close>

fun scoreLoop :: "jsstring \<Rightarrow> jsstring \<Rightarrow> indexed \<Rightarrow> jsstring list \<Rightarrow> int \<Rightarrow> int" where
  "scoreLoop lowerName lowerTagline ix [] totalScore = totalScore"
| "scoreLoop lowerName lowerTagline ix (word # rest) totalScore =
     (if wordScore lowerName lowerTagline ix word = 0 then 0
      else scoreLoop lowerName lowerTagline ix rest
             (totalScore + wordScore lowerName lowerTagline ix word))"

definition calculateMatchScore ::
  "host \<Rightarrow> (jsstring option \<Rightarrow> indexed option) \<Rightarrow> entry \<Rightarrow> jsstring list \<Rightarrow> int" where
  "calculateMatchScore h index tool queryWords =
     (if \<not> truthy tool \<or> length queryWords = 0 then 0
      else (case index (get tool_id tool) of
              None \<Rightarrow> 0
            | Some ix \<Rightarrow>
                scoreLoop (toLowerCase h (orEmpty (get tool_name tool)))
                          (toLowerCase h (orEmpty (get tool_tagline tool))) ix queryWords 0))"

section \<open>buildSearchIndex and init\<close>

definition searchText :: "host \<Rightarrow> entry \<Rightarrow> jsstring" where
  "searchText h tool =
     toLowerCase h
       (join (js '' '')
          ([orEmpty (get tool_name tool), orEmpty (get tool_tagline tool),
            orEmpty (get tool_description tool), orEmpty (get tool_license tool)]
           @ orNil (get tool_tags tool) @ orNil (get tool_platforms tool)
           @ strings (alternativesOf tool)))"

definition indexEntry :: "host \<Rightarrow> entry \<Rightarrow> indexed" where
  "indexEntry h tool =
     \<lparr>idx_text = searchText h tool,
      idx_words = filter (\<lambda>w. length w > 1) (split_ws (searchText h tool)),
      idx_alternatives = map (toLowerCase h) (strings (alternativesOf tool))\<rparr>"

text \<open>
  The \<^verbatim>\<open>forEach\<close> of \<^verbatim>\<open>buildSearchIndex\<close>: reading \<^verbatim>\<open>tool.name\<close> throws on
  \<^verbatim>\<open>undefined\<close> and \<^verbatim>\<open>null\<close>, and building the entry of a tool throws on an
  \<^verbatim>\<open>alternatives_to\<close> of the wrong type, before the entry is stored. The result is the
  index built so far and whether the loop threw.
\<close>

fun indexLoop ::
  "host \<Rightarrow> entry list \<Rightarrow> (jsstring option \<Rightarrow> indexed option)
     \<Rightarrow> (jsstring option \<Rightarrow> indexed option) \<times> bool" where
  "indexLoop h [] index = (index, False)"
| "indexLoop h (tool # rest) index =
     (if tool = Undefined \<or> tool = Null \<or> alternativesOf tool = WrongType then (index, True)
      else indexLoop h rest (index(get tool_id tool \<mapsto> indexEntry h tool)))"

definition buildSearchIndex :: "host \<Rightarrow> modstate \<Rightarrow> modstate \<times> bool" where
  "buildSearchIndex h st =
     (let (index, threw) = indexLoop h (tools st) Map.empty
      in (st\<lparr>searchIndex := index\<rparr>, threw))"

text \<open>The first argument of \<^verbatim>\<open>init\<close>: an array or anything else.\<close>

datatype toolsData = NotArray | Array "entry list"

text \<open>
  \<^verbatim>\<open>init(toolsData, onResults)\<close>; \<open>onResults\<close> is \<open>None\<close> when the second argument is not
  a function. \<^verbatim>\<open>setupEventListeners\<close> catches what it throws and changes no variable of
  the module.
\<close>

definition init ::
  "host \<Rightarrow> toolsData \<Rightarrow> (entry list \<Rightarrow> bool) option \<Rightarrow> modstate \<Rightarrow> modstate" where
  "init h toolsData onResults st =
     (if isInitialized st then st
      else
        (let st1 = st\<lparr>tools :=
                       (case toolsData of
                          NotArray \<Rightarrow> []
                        | Array xs \<Rightarrow>
                            filter (\<lambda>tool. truthy tool \<and> typeofObject tool
                                         \<and> truthyStr (get tool_id tool)
                                         \<and> truthyStr (get tool_name tool)) xs)\<rparr>;
             (st2, threw) = buildSearchIndex h st1
         in if threw then st2\<lparr>isInitialized := True, tools := []\<rparr>
            else st2\<lparr>onResultsCallback := onResults, isInitialized := True\<rparr>))"

section \<open>performSearch\<close>

definition searchKey :: "modstate \<Rightarrow> jsstring" where
  "searchKey st =
     query st @ js ''|'' @ category st @ js ''|'' @ join (js '','') (platforms st)
       @ js ''|'' @ join (js '','') (tags st)"

text \<open>The three filters, in the order of the source.\<close>

definition filterStage :: "modstate \<Rightarrow> entry list" where
  "filterStage st =
     (let results = tools st;
          results =
            (if category st \<noteq> [] \<and> category st \<noteq> js ''all''
             then filter (\<lambda>tool. get tool_category tool = Some (category st)) results
             else results);
          results =
            (if length (platforms st) > 0
             then filter (\<lambda>tool. let toolPlatforms = orNil (get tool_platforms tool)
                               in list_ex (\<lambda>p. p \<in> set toolPlatforms) (platforms st)) results
             else results);
          results =
            (if length (tags st) > 0
             then filter (\<lambda>tool. let toolTags = orNil (get tool_tags tool)
                               in list_ex (\<lambda>t. t \<in> set toolTags) (tags st)) results
             else results)
      in results)"

definition MIN_SEARCH_LENGTH :: nat where
  "MIN_SEARCH_LENGTH = 1"

text \<open>
  The query stage. \<^verbatim>\<open>sort\<close> with the comparator \<^verbatim>\<open>b.score - a.score\<close> is stable and puts
  higher scores first: a stable sort on the negated score.
\<close>

definition queryStage :: "host \<Rightarrow> modstate \<Rightarrow> entry list \<Rightarrow> entry list" where
  "queryStage h st results =
     (if query st \<noteq> [] \<and> length (query st) \<ge> MIN_SEARCH_LENGTH then
        (let queryWords = filter (\<lambda>w. length w > 0) (split_ws (query st));
             items = map (\<lambda>tool. (tool, calculateMatchScore h (searchIndex st) tool queryWords))
                       results;
             items = filter (\<lambda>item. snd item > 0) items;
             items = sort_key (\<lambda>item. - snd item) items
         in map fst items)
      else results)"

text \<open>\<^verbatim>\<open>notifyResults\<close>: whether the call throws.\<close>

definition notifyResults :: "modstate \<Rightarrow> entry list \<Rightarrow> bool" where
  "notifyResults st results =
     (case onResultsCallback st of None \<Rightarrow> False | Some callback \<Rightarrow> callback results)"

definition searchResults :: "host \<Rightarrow> modstate \<Rightarrow> entry list" where
  "searchResults h st = queryStage h st (filterStage st)"

text \<open>
  The \<^verbatim>\<open>try\<close> block of \<^verbatim>\<open>performSearch\<close>: the state it reaches, the lists it hands
  to \<^verbatim>\<open>notifyResults\<close>, and whether it throws. The block throws when the callback
  throws on the results or when \<^verbatim>\<open>announceResults\<close> fails.
\<close>

record attempt =
  reached :: modstate
  handed :: "entry list list"
  threw :: bool

definition tryBlock :: "host \<Rightarrow> modstate \<Rightarrow> attempt" where
  "tryBlock h st =
     (let key = searchKey st in
      if Some key = lastProcessedKey st
      then \<lparr>reached = st, handed = [], threw = False\<rparr>
      else
        (let st1 = st\<lparr>lastProcessedKey := Some key\<rparr>;
             results = searchResults h st1
         in \<lparr>reached = st1, handed = [results],
             threw = (notifyResults st1 results \<or> announceThrows h)\<rparr>))"

text \<open>
  A run of \<^verbatim>\<open>performSearch\<close>: the state it leaves, the lists handed to
  \<^verbatim>\<open>notifyResults\<close> in the order of the calls, and whether an exception reached the
  caller. The \<^verbatim>\<open>catch\<close> block calls \<^verbatim>\<open>notifyResults(tools)\<close>, outside any
  \<^verbatim>\<open>try\<close>.
\<close>

record run =
  after :: modstate
  delivered :: "entry list list"
  propagated :: bool

definition performSearch :: "host \<Rightarrow> modstate \<Rightarrow> run" where
  "performSearch h st =
     (let t = tryBlock h st in
      if threw t
      then \<lparr>after = reached t, delivered = handed t @ [tools (reached t)],
            propagated = notifyResults (reached t) (tools (reached t))\<rparr>
      else \<lparr>after = reached t, delivered = handed t, propagated = False\<rparr>)"

section \<open>The setters\<close>

text \<open>
  Each setter changes the state, runs \<^verbatim>\<open>performSearch\<close> and, when that returns, calls
  \<^verbatim>\<open>notifyStateChange\<close>, which hands copies of the state to the subscribers and
  changes no variable of the module. The state after the call is the one
  \<^verbatim>\<open>performSearch\<close> leaves.
\<close>

text \<open>\<^verbatim>\<open>xs.indexOf(v)\<close> and \<^verbatim>\<open>xs.splice(index, 1)\<close>.\<close>

fun indexOf :: "'a list \<Rightarrow> 'a \<Rightarrow> int" where
  "indexOf [] v = - 1"
| "indexOf (x # xs) v =
     (if x = v then 0 else (let i = indexOf xs v in if i = - 1 then - 1 else i + 1))"

definition splice1 :: "'a list \<Rightarrow> nat \<Rightarrow> 'a list" where
  "splice1 xs index = take index xs @ drop (Suc index) xs"

text \<open>
  \<^verbatim>\<open>setQuery\<close> reads \<^verbatim>\<open>query.length\<close> after it has stored the sanitized query: on
  \<^verbatim>\<open>null\<close> and \<^verbatim>\<open>undefined\<close> that read throws and \<^verbatim>\<open>performSearch\<close> is not reached.
\<close>

definition setQuery :: "host \<Rightarrow> jsstring option \<Rightarrow> modstate \<Rightarrow> modstate" where
  "setQuery h q st =
     (case q of
        None \<Rightarrow> st\<lparr>query := sanitizeQuery h q\<rparr>
      | Some s \<Rightarrow> after (performSearch h (st\<lparr>query := sanitizeQuery h q\<rparr>)))"

definition setCategory :: "host \<Rightarrow> jsstring option \<Rightarrow> modstate \<Rightarrow> modstate" where
  "setCategory h c st =
     after (performSearch h
       (st\<lparr>category := (case c of Some s \<Rightarrow> s | None \<Rightarrow> js ''all'')\<rparr>))"

definition setPlatforms :: "host \<Rightarrow> jsstring list option \<Rightarrow> modstate \<Rightarrow> modstate" where
  "setPlatforms h ps st = after (performSearch h (st\<lparr>platforms := orNil ps\<rparr>))"

definition togglePlatform :: "host \<Rightarrow> jsstring \<Rightarrow> modstate \<Rightarrow> modstate" where
  "togglePlatform h platform st =
     (let index = indexOf (platforms st) platform;
          st1 = (if index = - 1 then st\<lparr>platforms := platforms st @ [platform]\<rparr>
                 else st\<lparr>platforms := splice1 (platforms st) (nat index)\<rparr>)
      in after (performSearch h st1))"

definition setTags :: "host \<Rightarrow> jsstring list option \<Rightarrow> modstate \<Rightarrow> modstate" where
  "setTags h ts st = after (performSearch h (st\<lparr>tags := orNil ts\<rparr>))"

definition toggleTag :: "host \<Rightarrow> jsstring \<Rightarrow> modstate \<Rightarrow> modstate" where
  "toggleTag h tag st =
     (let index = indexOf (tags st) tag;
          st1 = (if index = - 1 then st\<lparr>tags := tags st @ [tag]\<rparr>
                 else st\<lparr>tags := splice1 (tags st) (nat index)\<rparr>)
      in after (performSearch h st1))"

definition clearFilters :: "host \<Rightarrow> modstate \<Rightarrow> modstate" where
  "clearFilters h st = after (performSearch h (st\<lparr>platforms := [], tags := []\<rparr>))"

definition clearSearch :: "host \<Rightarrow> modstate \<Rightarrow> modstate" where
  "clearSearch h st =
     after (performSearch h (st\<lparr>query := [], lastProcessedKey := None\<rparr>))"

definition resetAll :: "host \<Rightarrow> modstate \<Rightarrow> modstate" where
  "resetAll h st =
     after (performSearch h
       (st\<lparr>query := [], category := js ''all'', platforms := [], tags := [],
           lastProcessedKey := None\<rparr>))"

definition reset :: "modstate \<Rightarrow> modstate" where
  "reset st =
     st\<lparr>tools := [], query := [], category := js ''all'', platforms := [], tags := [],
        isInitialized := False, onResultsCallback := None, lastProcessedKey := None,
        searchIndex := Map.empty\<rparr>"

section \<open>What the specification says\<close>

text \<open>The three conditions under which a tool passes the filters, in the words of the claim.\<close>

definition categoryOk :: "modstate \<Rightarrow> entry \<Rightarrow> bool" where
  "categoryOk st tool \<longleftrightarrow>
     get tool_category tool = Some (category st) \<or> category st = js ''all'' \<or> category st = []"

definition platformOk :: "modstate \<Rightarrow> entry \<Rightarrow> bool" where
  "platformOk st tool \<longleftrightarrow>
     platforms st = [] \<or> (\<exists>p \<in> set (platforms st). p \<in> set (orNil (get tool_platforms tool)))"

definition tagOk :: "modstate \<Rightarrow> entry \<Rightarrow> bool" where
  "tagOk st tool \<longleftrightarrow>
     tags st = [] \<or> (\<exists>t \<in> set (tags st). t \<in> set (orNil (get tool_tags tool)))"

definition survives :: "modstate \<Rightarrow> entry \<Rightarrow> bool" where
  "survives st tool \<longleftrightarrow> categoryOk st tool \<and> platformOk st tool \<and> tagOk st tool"

text \<open>A toggle: the value is added at the end when absent, its first occurrence removed otherwise.\<close>

definition toggled :: "'a \<Rightarrow> 'a list \<Rightarrow> 'a list" where
  "toggled v xs = (if v \<in> set xs then remove1 v xs else xs @ [v])"

text \<open>The query words and the score of a tool in a state, as \<^verbatim>\<open>performSearch\<close> computes them.\<close>

definition queryWords :: "modstate \<Rightarrow> jsstring list" where
  "queryWords st = filter (\<lambda>w. length w > 0) (split_ws (query st))"

definition score :: "host \<Rightarrow> modstate \<Rightarrow> entry \<Rightarrow> int" where
  "score h st tool = calculateMatchScore h (searchIndex st) tool (queryWords st)"

text \<open>The elements of its argument that \<^verbatim>\<open>init\<close> keeps.\<close>

definition retained :: "toolsData \<Rightarrow> entry list" where
  "retained d =
     (case d of
        NotArray \<Rightarrow> []
      | Array xs \<Rightarrow>
          filter (\<lambda>tool. truthy tool \<and> typeofObject tool \<and> truthyStr (get tool_id tool)
                         \<and> truthyStr (get tool_name tool)) xs)"

text \<open>
  Every tool of the internal list is an object with a truthy \<^verbatim>\<open>id\<close> and \<^verbatim>\<open>name\<close> and
  has an entry in the search index.
\<close>

fun isObject :: "entry \<Rightarrow> bool" where
  "isObject (Object t) = True"
| "isObject other = False"

definition retainedOk :: "modstate \<Rightarrow> bool" where
  "retainedOk st \<longleftrightarrow>
     (\<forall>tool \<in> set (tools st).
        isObject tool \<and> truthyStr (get tool_id tool) \<and> truthyStr (get tool_name tool)
        \<and> searchIndex st (get tool_id tool) \<noteq> None)"

text \<open>The states the module can be in: the initial one and what the exported functions make of it.\<close>

inductive reachable :: "host \<Rightarrow> modstate \<Rightarrow> bool" for h where
  start: "reachable h initialState"
| by_init: "reachable h st \<Longrightarrow> reachable h (init h d cb st)"
| by_reset: "reachable h st \<Longrightarrow> reachable h (reset st)"
| by_performSearch: "reachable h st \<Longrightarrow> reachable h (after (performSearch h st))"
| by_setQuery: "reachable h st \<Longrightarrow> reachable h (setQuery h q st)"
| by_setCategory: "reachable h st \<Longrightarrow> reachable h (setCategory h c st)"
| by_setPlatforms: "reachable h st \<Longrightarrow> reachable h (setPlatforms h ps st)"
| by_togglePlatform: "reachable h st \<Longrightarrow> reachable h (togglePlatform h p st)"
| by_setTags: "reachable h st \<Longrightarrow> reachable h (setTags h ts st)"
| by_toggleTag: "reachable h st \<Longrightarrow> reachable h (toggleTag h t st)"
| by_clearFilters: "reachable h st \<Longrightarrow> reachable h (clearFilters h st)"
| by_clearSearch: "reachable h st \<Longrightarrow> reachable h (clearSearch h st)"
| by_resetAll: "reachable h st \<Longrightarrow> reachable h (resetAll h st)"

text \<open>
  The standard edit distance: one step inserts, deletes or substitutes a single unit
  anywhere in the string, and the distance from \<open>a\<close> to \<open>b\<close> is the least number of
  steps that lead from \<open>a\<close> to \<open>b\<close>.
\<close>

inductive edit1 :: "'a list \<Rightarrow> 'a list \<Rightarrow> bool" where
  insertion: "edit1 (us @ vs) (us @ c # vs)"
| deletion: "edit1 (us @ c # vs) (us @ vs)"
| substitution: "c \<noteq> d \<Longrightarrow> edit1 (us @ c # vs) (us @ d # vs)"

definition editDistance :: "'a list \<Rightarrow> 'a list \<Rightarrow> nat" where
  "editDistance a b = (LEAST n. (edit1 ^^ n) a b)"

text \<open>
  The recurrence of the distance on the fronts of the two strings, and its value on two
  prefixes, which is what the cell \<^verbatim>\<open>matrix[i][j]\<close> holds; \<open>fullRow\<close> is a finished row
  of the matrix.
\<close>

fun lev :: "'a list \<Rightarrow> 'a list \<Rightarrow> nat" where
  "lev [] ys = length ys"
| "lev (x # xs) [] = Suc (length xs)"
| "lev (x # xs) (y # ys) =
     (if x = y then lev xs ys
      else 1 + min (lev xs ys) (min (lev xs (y # ys)) (lev (x # xs) ys)))"

definition prefixDistance :: "'a list \<Rightarrow> 'a list \<Rightarrow> nat \<Rightarrow> nat \<Rightarrow> nat" where
  "prefixDistance a b i j = lev (rev (take j a)) (rev (take i b))"

definition fullRow :: "'a list \<Rightarrow> 'a list \<Rightarrow> nat \<Rightarrow> nat list" where
  "fullRow a b r = map (prefixDistance a b r) [0..<Suc (length a)]"

text \<open>
  Prefix and substring; the similarity of a query word and an indexed word and the best
  similarity over the indexed words of two units or more (1 when the query word is a
  prefix of one of them); the score of one query word: the points of the first tier,
  in the order of the claim, that applies, and 0 when none does.
\<close>

definition isPrefixOf :: "'a list \<Rightarrow> 'a list \<Rightarrow> bool" where
  "isPrefixOf w s \<longleftrightarrow> (\<exists>r. s = w @ r)"

definition isSubstringOf :: "'a list \<Rightarrow> 'a list \<Rightarrow> bool" where
  "isSubstringOf w s \<longleftrightarrow> (\<exists>p r. s = p @ w @ r)"

definition similarity :: "'a list \<Rightarrow> 'a list \<Rightarrow> rat" where
  "similarity q w =
     1 - of_nat (editDistance q (take (length q + 2) w)) / of_nat (max (length q) (length w))"

definition bestSimilarity :: "'a list \<Rightarrow> 'a list list \<Rightarrow> rat" where
  "bestSimilarity q ws =
     (if \<exists>w \<in> set ws. 2 \<le> length w \<and> isPrefixOf q w then 1
      else Max (insert 0 (similarity q ` {w \<in> set ws. 2 \<le> length w})))"

definition tierScore :: "jsstring \<Rightarrow> jsstring \<Rightarrow> indexed \<Rightarrow> jsstring \<Rightarrow> int" where
  "tierScore name tagline ix w =
     (case find fst
        [(name = w, 100),
         (isPrefixOf w name, 80),
         (isSubstringOf w name, 60),
         (isPrefixOf w tagline, 40),
         (isSubstringOf w tagline, 30),
         (\<exists>alt \<in> set (idx_alternatives ix). isSubstringOf w alt, 70),
         (isSubstringOf w (idx_text ix), 20),
         (FUZZY_THRESHOLD < bestSimilarity w (idx_words ix),
            \<lfloor>15 * bestSimilarity w (idx_words ix)\<rfloor>)]
      of None \<Rightarrow> 0 | Some (applies, points) \<Rightarrow> points)"

section \<open>Example data\<close>

definition gimp :: tool where
  "gimp =
     \<lparr>tool_id = Some (js ''g''), tool_name = Some (js ''GIMP''),
      tool_tagline = Some (js ''Image editor''), tool_description = None,
      tool_license = Some (js ''GPL''), tool_tags = Some [js ''art''],
      tool_platforms = Some [js ''linux'', js ''mac''],
      tool_alternatives_to = Strings [js ''Photoshop''], tool_category = Some (js ''design'')\<rparr>"

definition vlc :: tool where
  "vlc =
     \<lparr>tool_id = Some (js ''v''), tool_name = Some (js ''VLC''),
      tool_tagline = Some (js ''Media player''), tool_description = None,
      tool_license = None, tool_tags = Some [js ''video''],
      tool_platforms = Some [js ''linux''],
      tool_alternatives_to = Absent, tool_category = Some (js ''media'')\<rparr>"

text \<open>
  A tool whose \<^verbatim>\<open>alternatives_to\<close> is a number, and the module after \<^verbatim>\<open>init\<close> on an
  array that holds it after a well-formed tool.
\<close>

definition broken :: tool where
  "broken = gimp\<lparr>tool_id := Some (js ''b''), tool_alternatives_to := WrongType\<rparr>"

definition failed :: modstate where
  "failed =
     init browser (Array [Object gimp, Object broken]) (Some (\<lambda>results. False)) initialState"

definition designOnLinux :: modstate where
  "designOnLinux =
     initialState\<lparr>tools := [Object gimp, Null, Object vlc], category := js ''design'',
                  platforms := [js ''linux'']\<rparr>"

definition macThenLinux :: modstate where
  "macThenLinux = initialState\<lparr>platforms := [js ''mac'', js ''linux'']\<rparr>"

text \<open>
  The module after \<^verbatim>\<open>init\<close> on an array with a \<^verbatim>\<open>null\<close> in it and a callback that
  never throws; the same with the query \<^verbatim>\<open>'l'\<close>; the module with a callback that
  always throws; a host where \<^verbatim>\<open>announceResults\<close> fails.
\<close>

definition loaded :: modstate where
  "loaded =
     init browser (Array [Object gimp, Null, Object vlc]) (Some (\<lambda>results. False)) initialState"

definition searchL :: modstate where
  "searchL = loaded\<lparr>query := js ''l''\<rparr>"

definition throwing :: modstate where
  "throwing = init browser (Array [Object gimp]) (Some (\<lambda>results. True)) initialState"

definition noAnnouncer :: host where
  "noAnnouncer = browser\<lparr>announceThrows := True\<rparr>"

text \<open>
  An index that holds the entry of one tool; three query words; a query of 100 units that
  starts with U+0130.
\<close>

definition gimpIndex :: "jsstring option \<Rightarrow> indexed option" where
  "gimpIndex = [get tool_id (Object gimp) \<mapsto> indexEntry browser (Object gimp)]"

definition searchWords :: "jsstring list" where
  "searchWords = [js ''image'', js ''gim'', js ''limux'']"

definition dottedQuery :: jsstring where
  "dottedQuery = 0x130 # replicate 99 0x61"

section \<open>The filters of performSearch\<close>

lemma filter_categoryOk:
  "(if category st \<noteq> [] \<and> category st \<noteq> js ''all''
    then filter (\<lambda>tool. get tool_category tool = Some (category st)) xs else xs)
   = filter (categoryOk st) xs"
proof (cases "category st \<noteq> [] \<and> category st \<noteq> js ''all''")
  case True
  then have "categoryOk st = (\<lambda>tool. get tool_category tool = Some (category st))"
    by (auto simp: fun_eq_iff categoryOk_def)
  with True show ?thesis by simp
next
  case False
  then have "categoryOk st = (\<lambda>tool. True)"
    by (auto simp: fun_eq_iff categoryOk_def)
  with False show ?thesis by auto
qed

lemma filter_platformOk:
  "(if length (platforms st) > 0
    then filter (\<lambda>tool. list_ex (\<lambda>p. p \<in> set (orNil (get tool_platforms tool)))
                             (platforms st)) xs
    else xs) = filter (platformOk st) xs"
proof (cases "platforms st = []")
  case True
  then have "platformOk st = (\<lambda>tool. True)"
    by (simp add: fun_eq_iff platformOk_def)
  with True show ?thesis by simp
next
  case False
  then have "platformOk st = (\<lambda>tool. list_ex (\<lambda>p. p \<in> set (orNil (get tool_platforms tool)))
                             (platforms st))"
    by (simp add: fun_eq_iff platformOk_def list_ex_iff)
  with False show ?thesis by simp
qed

lemma filter_tagOk:
  "(if length (tags st) > 0
    then filter (\<lambda>tool. list_ex (\<lambda>t. t \<in> set (orNil (get tool_tags tool))) (tags st)) xs
    else xs) = filter (tagOk st) xs"
proof (cases "tags st = []")
  case True
  then have "tagOk st = (\<lambda>tool. True)"
    by (simp add: fun_eq_iff tagOk_def)
  with True show ?thesis by simp
next
  case False
  then have "tagOk st = (\<lambda>tool. list_ex (\<lambda>t. t \<in> set (orNil (get tool_tags tool))) (tags st))"
    by (simp add: fun_eq_iff tagOk_def list_ex_iff)
  with False show ?thesis by simp
qed

lemma filterStage_filters:
  "filterStage st = filter (tagOk st) (filter (platformOk st) (filter (categoryOk st) (tools st)))"
  unfolding filterStage_def Let_def
  by (simp only: filter_categoryOk filter_platformOk filter_tagOk)

text \<open>
  Claim C4. The filtering stage of \<^verbatim>\<open>performSearch\<close> is three plain filters applied in
  the order category, platforms, tags; a tool of the list passes it if and only if its
  category is the selected one (or the selection is \<^verbatim>\<open>'all'\<close> or empty), and no platform
  is selected or the tool has one of the selected platforms, and no tag is selected or
  the tool has one of the selected tags.
\<close>

theorem filterStage_survivors:
  "filterStage st = filter (tagOk st) (filter (platformOk st) (filter (categoryOk st) (tools st)))
   \<and> filterStage st = filter (survives st) (tools st)
   \<and> (\<forall>tool. tool \<in> set (filterStage st) \<longleftrightarrow> tool \<in> set (tools st) \<and> survives st tool)"
  by (auto simp: filterStage_filters survives_def intro: filter_cong)

theorem filterStage_survivors_witness:
  "filterStage designOnLinux = [Object gimp]
   \<and> survives designOnLinux (Object gimp) \<and> \<not> survives designOnLinux (Object vlc)
   \<and> \<not> survives designOnLinux Null"
  using filterStage_survivors [of designOnLinux]
  by (simp add: designOnLinux_def initialState_def survives_def categoryOk_def platformOk_def
      tagOk_def get_def orNil_def gimp_def vlc_def js_def)

section \<open>The frame of performSearch\<close>

lemma reached_tryBlock:
  "reached (tryBlock h st) = st \<or>
   reached (tryBlock h st) = st\<lparr>lastProcessedKey := Some (searchKey st)\<rparr>"
  by (simp add: tryBlock_def Let_def)

lemma after_performSearch:
  "after (performSearch h st) = st \<or>
   after (performSearch h st) = st\<lparr>lastProcessedKey := Some (searchKey st)\<rparr>"
  using reached_tryBlock [of h st] by (auto simp: performSearch_def Let_def)

lemma platforms_after_performSearch [simp]:
  "platforms (after (performSearch h st)) = platforms st"
  using after_performSearch [of h st] by auto

lemma tags_after_performSearch [simp]:
  "tags (after (performSearch h st)) = tags st"
  using after_performSearch [of h st] by auto

lemma tools_after_performSearch [simp]:
  "tools (after (performSearch h st)) = tools st"
  using after_performSearch [of h st] by auto

lemma searchIndex_after_performSearch [simp]:
  "searchIndex (after (performSearch h st)) = searchIndex st"
  using after_performSearch [of h st] by auto

lemma query_after_performSearch [simp]:
  "query (after (performSearch h st)) = query st"
  using after_performSearch [of h st] by auto

lemma category_after_performSearch [simp]:
  "category (after (performSearch h st)) = category st"
  using after_performSearch [of h st] by auto

lemma isInitialized_after_performSearch [simp]:
  "isInitialized (after (performSearch h st)) = isInitialized st"
  using after_performSearch [of h st] by auto

lemma onResultsCallback_after_performSearch [simp]:
  "onResultsCallback (after (performSearch h st)) = onResultsCallback st"
  using after_performSearch [of h st] by auto

text \<open>
  Claim C5. \<^verbatim>\<open>performSearch\<close> leaves the tools list (and so every tool in it), the
  search index and the four filter fields \<^verbatim>\<open>query\<close>, \<^verbatim>\<open>category\<close>, \<^verbatim>\<open>platforms\<close>
  and \<^verbatim>\<open>tags\<close> as they were, whichever way the run ends.
\<close>

theorem performSearch_frame:
  "tools (after (performSearch h st)) = tools st
   \<and> searchIndex (after (performSearch h st)) = searchIndex st
   \<and> query (after (performSearch h st)) = query st
   \<and> category (after (performSearch h st)) = category st
   \<and> platforms (after (performSearch h st)) = platforms st
   \<and> tags (after (performSearch h st)) = tags st"
  by simp

section \<open>The toggles\<close>

lemma indexOf_ge: "- 1 \<le> indexOf xs v"
  by (induction xs) (auto simp: Let_def)

lemma indexOf_absent: "indexOf xs v = - 1 \<longleftrightarrow> v \<notin> set xs"
proof (induction xs)
  case Nil
  then show ?case by simp
next
  case (Cons x xs)
  have "indexOf xs v + 1 \<noteq> - 1" using indexOf_ge [of xs v] by simp
  with Cons show ?case by (simp add: Let_def)
qed

lemma indexOf_nonneg: "v \<in> set xs \<Longrightarrow> 0 \<le> indexOf xs v"
  using indexOf_ge [of xs v] indexOf_absent [of xs v] by auto

lemma splice1_indexOf: "v \<in> set xs \<Longrightarrow> splice1 xs (nat (indexOf xs v)) = remove1 v xs"
proof (induction xs)
  case Nil
  then show ?case by simp
next
  case (Cons x xs)
  show ?case
  proof (cases "x = v")
    case True
    then show ?thesis by (simp add: splice1_def)
  next
    case False
    with Cons.prems have mem: "v \<in> set xs" by simp
    then have nn: "0 \<le> indexOf xs v" by (rule indexOf_nonneg)
    then have "nat (indexOf xs v + 1) = Suc (nat (indexOf xs v))" by simp
    moreover have "indexOf xs v \<noteq> - 1" using nn by simp
    ultimately show ?thesis
      using False Cons.IH [OF mem] by (simp add: splice1_def Let_def)
  qed
qed

lemma platforms_togglePlatform:
  "platforms (togglePlatform h p st) = toggled p (platforms st)"
  by (simp add: togglePlatform_def Let_def toggled_def indexOf_absent splice1_indexOf)

lemma tags_toggleTag:
  "tags (toggleTag h t st) = toggled t (tags st)"
  by (simp add: toggleTag_def Let_def toggled_def indexOf_absent splice1_indexOf)

lemma remove1_snoc_eq:
  "v \<in> set xs \<Longrightarrow> v \<notin> set (remove1 v xs) \<Longrightarrow>
   (remove1 v xs @ [v] = xs \<longleftrightarrow> (\<exists>ys. xs = ys @ [v] \<and> v \<notin> set ys))"
proof
  assume a: "v \<in> set xs" "v \<notin> set (remove1 v xs)" "remove1 v xs @ [v] = xs"
  then show "\<exists>ys. xs = ys @ [v] \<and> v \<notin> set ys"
    by metis
next
  assume a: "v \<in> set xs" "v \<notin> set (remove1 v xs)" "\<exists>ys. xs = ys @ [v] \<and> v \<notin> set ys"
  then obtain ys where ys: "xs = ys @ [v]" "v \<notin> set ys" by blast
  then have "remove1 v xs = ys" by (simp add: remove1_append)
  with ys show "remove1 v xs @ [v] = xs" by simp
qed

lemma toggled_twice:
  "toggled v (toggled v xs) = xs \<longleftrightarrow> v \<notin> set xs \<or> (\<exists>ys. xs = ys @ [v] \<and> v \<notin> set ys)"
proof (cases "v \<in> set xs")
  case False
  then show ?thesis by (simp add: toggled_def remove1_append)
next
  case True
  show ?thesis
  proof (cases "v \<in> set (remove1 v xs)")
    case in2: True
    have "length (remove1 v (remove1 v xs)) < length xs"
      using True in2 length_pos_if_in_set [of v xs] by (simp add: length_remove1)
    then have ne: "remove1 v (remove1 v xs) \<noteq> xs" by auto
    have "\<not> (\<exists>ys. xs = ys @ [v] \<and> v \<notin> set ys)"
    proof
      assume "\<exists>ys. xs = ys @ [v] \<and> v \<notin> set ys"
      then obtain ys where ys: "xs = ys @ [v]" "v \<notin> set ys" by blast
      then have "remove1 v xs = ys" by (simp add: remove1_append)
      with in2 ys show False by simp
    qed
    with True in2 ne show ?thesis by (simp add: toggled_def)
  next
    case False
    with True remove1_snoc_eq [of v xs] show ?thesis by (simp add: toggled_def)
  qed
qed

text \<open>
  Claim C9, as stated, fails: toggling a platform that is selected, but not as the last
  element of the list, twice moves it to the end. Here \<^verbatim>\<open>'mac'\<close> is toggled twice in
  the selection \<^verbatim>\<open>['mac', 'linux']\<close>.
\<close>

theorem toggle_twice_counterexample:
  "platforms (togglePlatform browser (js ''mac'') (togglePlatform browser (js ''mac'') macThenLinux))
   \<noteq> platforms macThenLinux"
  by (simp add: platforms_togglePlatform toggled_def macThenLinux_def initialState_def js_def)

text \<open>
  Claim C9, amended. One call of \<^verbatim>\<open>togglePlatform\<close> (of \<^verbatim>\<open>toggleTag\<close>) appends the
  value when it is absent and removes its first occurrence when it is present. Two calls
  in succession give back the list, element for element, exactly when the value was absent
  or its only occurrence was the last element; in particular whenever it was absent.
\<close>

theorem toggle_twice_amended:
  "platforms (togglePlatform h p st) =
     (if p \<in> set (platforms st) then remove1 p (platforms st) else platforms st @ [p])
   \<and> tags (toggleTag h t st) =
     (if t \<in> set (tags st) then remove1 t (tags st) else tags st @ [t])
   \<and> (platforms (togglePlatform h p (togglePlatform h p st)) = platforms st
        \<longleftrightarrow> p \<notin> set (platforms st) \<or> (\<exists>ys. platforms st = ys @ [p] \<and> p \<notin> set ys))
   \<and> (tags (toggleTag h t (toggleTag h t st)) = tags st
        \<longleftrightarrow> t \<notin> set (tags st) \<or> (\<exists>ys. tags st = ys @ [t] \<and> t \<notin> set ys))"
  by (simp add: platforms_togglePlatform tags_toggleTag toggled_twice)
    (simp add: toggled_def)

theorem toggle_twice_amended_witness:
  "js ''web'' \<notin> set (platforms macThenLinux)
   \<and> platforms (togglePlatform browser (js ''web'') macThenLinux)
       = [js ''mac'', js ''linux'', js ''web'']
   \<and> platforms (togglePlatform browser (js ''web'')
        (togglePlatform browser (js ''web'') macThenLinux)) = platforms macThenLinux"
  using toggle_twice_amended [of browser "js ''web''" macThenLinux]
  by (simp add: macThenLinux_def initialState_def js_def)

section \<open>The results of performSearch\<close>

lemma insort_key_pair:
  "insort_key (\<lambda>item. - snd item) (t, f t) (map (\<lambda>t. (t, f t)) ys)
   = map (\<lambda>t. (t, f t)) (insort_key (\<lambda>t. - f t) t ys)"
  by (induction ys) auto

lemma sort_key_pair:
  "sort_key (\<lambda>item. - snd item) (map (\<lambda>t. (t, f t)) ys)
   = map (\<lambda>t. (t, f t)) (sort_key (\<lambda>t. - f t) ys)"
  by (induction ys) (auto simp: insort_key_pair)

lemma filter_pair:
  "filter (\<lambda>item. 0 < snd item) (map (\<lambda>t. (t, f t)) xs)
   = map (\<lambda>t. (t, f t)) (filter (\<lambda>t. 0 < f t) xs)"
  by (induction xs) auto

lemma pipeline_tools:
  "map fst (sort_key (\<lambda>item. - snd item)
      (filter (\<lambda>item. 0 < snd item) (map (\<lambda>t. (t, (f t :: int))) xs)))
   = sort_key (\<lambda>t. - f t) (filter (\<lambda>t. 0 < f t) xs)"
  by (simp add: filter_pair sort_key_pair comp_def)

lemma queryStage_sorted:
  "query st \<noteq> [] \<Longrightarrow>
   queryStage h st xs = sort_key (\<lambda>t. - score h st t) (filter (\<lambda>t. 0 < score h st t) xs)"
proof -
  assume ne: "query st \<noteq> []"
  then have "length (query st) \<ge> MIN_SEARCH_LENGTH"
    by (cases "query st") (simp_all add: MIN_SEARCH_LENGTH_def)
  with ne have "queryStage h st xs =
     map fst (sort_key (\<lambda>item. - snd item)
      (filter (\<lambda>item. 0 < snd item) (map (\<lambda>t. (t, score h st t)) xs)))"
    by (simp add: queryStage_def Let_def score_def queryWords_def)
  then show ?thesis by (simp only: pipeline_tools)
qed

lemma queryStage_empty: "query st = [] \<Longrightarrow> queryStage h st xs = xs"
  by (simp add: queryStage_def)

lemma filterStage_key [simp]: "filterStage (st\<lparr>lastProcessedKey := k\<rparr>) = filterStage st"
  by (simp add: filterStage_def Let_def)

lemma queryStage_key [simp]: "queryStage h (st\<lparr>lastProcessedKey := k\<rparr>) xs = queryStage h st xs"
  by (simp add: queryStage_def Let_def)

lemma searchResults_key [simp]: "searchResults h (st\<lparr>lastProcessedKey := k\<rparr>) = searchResults h st"
  by (simp add: searchResults_def)

lemma handed_tryBlock:
  "handed (tryBlock h st) =
     (if Some (searchKey st) = lastProcessedKey st then [] else [searchResults h st])"
  by (simp add: tryBlock_def Let_def)

lemma tools_reached [simp]: "tools (reached (tryBlock h st)) = tools st"
  using reached_tryBlock [of h st] by auto

lemma notifyResults_reached:
  "notifyResults (reached (tryBlock h st)) xs = notifyResults st xs"
  using reached_tryBlock [of h st] by (auto simp: notifyResults_def split: option.splits)

lemma delivered_performSearch:
  "delivered (performSearch h st) =
     handed (tryBlock h st) @ (if threw (tryBlock h st) then [tools st] else [])"
  by (simp add: performSearch_def Let_def)

lemma threw_tryBlock:
  "threw (tryBlock h st) \<longleftrightarrow>
     Some (searchKey st) \<noteq> lastProcessedKey st
     \<and> (notifyResults st (searchResults h st) \<or> announceThrows h)"
  by (simp add: tryBlock_def Let_def notifyResults_def split: option.split)

lemma propagated_performSearch:
  "propagated (performSearch h st) \<longleftrightarrow> threw (tryBlock h st) \<and> notifyResults st (tools st)"
  by (simp add: performSearch_def Let_def notifyResults_reached)

lemma hd_delivered:
  "Some (searchKey st) \<noteq> lastProcessedKey st \<Longrightarrow>
   hd (delivered (performSearch h st)) = searchResults h st"
  by (simp add: delivered_performSearch handed_tryBlock)

lemma delivered_empty:
  "delivered (performSearch h st) = [] \<longleftrightarrow> Some (searchKey st) = lastProcessedKey st"
  by (simp add: delivered_performSearch handed_tryBlock threw_tryBlock)


section \<open>init\<close>

lemma indexLoop_keeps:
  "indexLoop h xs index = (index', t) \<Longrightarrow> index k \<noteq> None \<Longrightarrow> index' k \<noteq> None"
  by (induction xs arbitrary: index) (auto split: if_splits)

lemma indexLoop_covers:
  "indexLoop h xs index = (index', False) \<Longrightarrow> tool \<in> set xs
   \<Longrightarrow> index' (get tool_id tool) \<noteq> None"
proof (induction xs arbitrary: index)
  case Nil
  then show ?case by simp
next
  case (Cons x xs)
  from Cons.prems(1) have ok: "x \<noteq> Undefined" "x \<noteq> Null"
    and rest: "indexLoop h xs (index(get tool_id x \<mapsto> indexEntry h x)) = (index', False)"
    by (auto split: if_splits)
  show ?case
  proof (cases "tool = x")
    case True
    then show ?thesis using indexLoop_keeps [OF rest, of "get tool_id x"] by simp
  next
    case False
    with Cons.prems(2) have "tool \<in> set xs" by simp
    then show ?thesis using Cons.IH [OF rest] by simp
  qed
qed

lemma indexLoop_threw:
  "\<forall>tool \<in> set xs. truthy tool \<Longrightarrow>
   snd (indexLoop h xs index) \<longleftrightarrow> (\<exists>tool \<in> set xs. alternativesOf tool = WrongType)"
  by (induction xs arbitrary: index) auto

lemma retained_truthy: "tool \<in> set (retained d) \<Longrightarrow>
   truthy tool \<and> isObject tool \<and> truthyStr (get tool_id tool) \<and> truthyStr (get tool_name tool)"
  by (cases d; cases tool) (auto simp: retained_def)

lemma retained_threw:
  "snd (indexLoop h (retained d) index)
   \<longleftrightarrow> (\<exists>tool \<in> set (retained d). alternativesOf tool = WrongType)"
  by (rule indexLoop_threw) (simp add: retained_truthy)

lemma snd_buildSearchIndex:
  "snd (buildSearchIndex h st) = snd (indexLoop h (tools st) Map.empty)"
  by (simp add: buildSearchIndex_def split: prod.split)

lemma init_first:
  assumes "\<not> isInitialized st"
  shows "init h d cb st =
     (if snd (indexLoop h (retained d) Map.empty)
      then st\<lparr>tools := [], searchIndex := fst (indexLoop h (retained d) Map.empty),
              isInitialized := True\<rparr>
      else st\<lparr>tools := retained d, searchIndex := fst (indexLoop h (retained d) Map.empty),
              onResultsCallback := cb, isInitialized := True\<rparr>)"
proof -
  obtain index t where "indexLoop h (retained d) Map.empty = (index, t)"
    by (cases "indexLoop h (retained d) Map.empty")
  with assms show ?thesis
    by (simp add: init_def buildSearchIndex_def retained_def Let_def)
qed

lemma init_fresh:
  assumes "\<not> isInitialized st"
    and "\<forall>tool \<in> set (retained d). alternativesOf tool \<noteq> WrongType"
  shows "init h d cb st =
           st\<lparr>tools := retained d, searchIndex := fst (indexLoop h (retained d) Map.empty),
              onResultsCallback := cb, isInitialized := True\<rparr>"
proof -
  have "\<not> snd (indexLoop h (retained d) Map.empty)"
    using assms(2) by (simp add: retained_threw)
  then show ?thesis by (simp add: init_first [OF assms(1)])
qed

lemma init_again: "isInitialized st \<Longrightarrow> init h d cb st = st"
  by (simp add: init_def)

lemma retainedOk_init_fresh:
  assumes "\<not> isInitialized st"
  shows "retainedOk (init h d cb st)"
proof (cases "snd (indexLoop h (retained d) Map.empty)")
  case True
  then show ?thesis by (simp add: init_first [OF assms] retainedOk_def)
next
  case False
  then have il: "indexLoop h (retained d) Map.empty
                 = (fst (indexLoop h (retained d) Map.empty), False)"
    by (cases "indexLoop h (retained d) Map.empty") simp
  show ?thesis
    using False indexLoop_covers [OF il] retained_truthy [of _ d]
    by (simp add: init_first [OF assms] retainedOk_def)
qed

lemma retainedOk_after [simp]: "retainedOk (after (performSearch h st)) = retainedOk st"
  by (simp add: retainedOk_def)

lemma reachable_retainedOk: "reachable h st \<Longrightarrow> retainedOk st"
proof (induction rule: reachable.induct)
  case start
  then show ?case by (simp add: retainedOk_def initialState_def)
next
  case (by_init st d cb)
  then show ?case by (cases "isInitialized st") (simp_all add: init_again retainedOk_init_fresh)
next
  case (by_reset st)
  then show ?case by (simp add: retainedOk_def reset_def)
qed (simp_all add: setQuery_def setCategory_def setPlatforms_def togglePlatform_def setTags_def
      toggleTag_def clearFilters_def clearSearch_def resetAll_def Let_def retainedOk_def
      split: option.split)

lemma fresh_initialState: "\<not> isInitialized initialState"
  by (simp add: initialState_def)

lemma initialState_fields:
  "lastProcessedKey initialState = None" "query initialState = []"
  "category initialState = js ''all''" "platforms initialState = []" "tags initialState = []"
  "tools initialState = []" "onResultsCallback initialState = None"
  by (simp_all add: initialState_def)

lemma typed_gimp:
  "\<forall>tool \<in> set (retained (Array [Object gimp])). alternativesOf tool \<noteq> WrongType"
  by (simp add: retained_def alternativesOf_def gimp_def)

lemma typed_loaded:
  "\<forall>tool \<in> set (retained (Array [Object gimp, Null, Object vlc])).
     alternativesOf tool \<noteq> WrongType"
  by (simp add: retained_def alternativesOf_def gimp_def vlc_def)

lemma untyped_failed:
  "\<exists>tool \<in> set (retained (Array [Object gimp, Object broken])).
     alternativesOf tool = WrongType"
  by (simp add: retained_def alternativesOf_def get_def truthyStr_def gimp_def broken_def js_def)

lemma loaded_fields:
  "lastProcessedKey loaded = None" "tools loaded = [Object gimp, Object vlc]"
  "query loaded = []" "category loaded = js ''all''" "platforms loaded = []" "tags loaded = []"
  unfolding loaded_def init_fresh [OF fresh_initialState typed_loaded]
  by (simp_all add: initialState_fields retained_def get_def truthyStr_def gimp_def vlc_def
      js_def)

text \<open>
  Claim C8, as stated, fails in its last part: a module that is already initialised
  ignores the call, so \<^verbatim>\<open>init\<close> with an argument that is not an array leaves the list of
  the first call in place.
\<close>

theorem init_not_array_counterexample:
  "tools (init browser NotArray None (init browser (Array [Object gimp]) None initialState)) \<noteq> []"
proof -
  have a: "\<not> isInitialized initialState" by (simp add: initialState_def)
  have b: "isInitialized (init browser (Array [Object gimp]) None initialState)"
    by (simp add: init_fresh [OF a typed_gimp])
  have "tools (init browser (Array [Object gimp]) None initialState) = [Object gimp]"
    unfolding init_fresh [OF a typed_gimp]
    by (simp add: retained_def get_def truthyStr_def gimp_def js_def)
  then show ?thesis
    by (simp add: init_again [OF b])
qed

text \<open>
  Claim C8, amended. After \<^verbatim>\<open>init\<close> returns, with or without an internal error, in any
  state the module can be in, every tool of the internal list is an object with a truthy
  \<^verbatim>\<open>id\<close> and \<^verbatim>\<open>name\<close> and has an entry in the search index, and the module is
  initialised. If the module was not initialised before the call: the internal list is
  empty when the argument is not an array, it is empty when \<^verbatim>\<open>buildSearchIndex\<close> threw
  (the internal error, which a kept tool whose \<^verbatim>\<open>alternatives_to\<close> is of the wrong type
  causes), and it is the list of the kept elements otherwise. If the module was initialised, the call changes
  nothing.
\<close>

theorem init_retains:
  assumes "reachable h st"
  shows "retainedOk (init h d cb st)
         \<and> (\<not> isInitialized st \<longrightarrow> d = NotArray \<longrightarrow> tools (init h d cb st) = [])
         \<and> (\<not> isInitialized st \<longrightarrow> snd (buildSearchIndex h (st\<lparr>tools := retained d\<rparr>))
              \<longrightarrow> tools (init h d cb st) = [])
         \<and> (\<not> isInitialized st \<longrightarrow> \<not> snd (buildSearchIndex h (st\<lparr>tools := retained d\<rparr>))
              \<longrightarrow> tools (init h d cb st) = retained d)
         \<and> (isInitialized st \<longrightarrow> init h d cb st = st)
         \<and> isInitialized (init h d cb st)"
proof -
  have "retainedOk (init h d cb st)"
    using reachable_retainedOk [OF reachable.by_init [OF assms]] .
  moreover have "\<not> isInitialized st \<Longrightarrow> d = NotArray \<Longrightarrow> tools (init h d cb st) = []"
    by (simp add: init_first retained_def)
  moreover have "\<not> isInitialized st \<Longrightarrow> snd (buildSearchIndex h (st\<lparr>tools := retained d\<rparr>))
      \<Longrightarrow> tools (init h d cb st) = []"
    by (simp add: init_first snd_buildSearchIndex)
  moreover have "\<not> isInitialized st \<Longrightarrow> \<not> snd (buildSearchIndex h (st\<lparr>tools := retained d\<rparr>))
      \<Longrightarrow> tools (init h d cb st) = retained d"
    by (simp add: init_first snd_buildSearchIndex)
  moreover have "isInitialized (init h d cb st)"
    by (cases "isInitialized st") (simp_all add: init_again init_first)
  ultimately show ?thesis by (simp add: init_again)
qed

theorem init_retains_witness:
  "reachable browser initialState \<and> \<not> isInitialized initialState
   \<and> tools loaded = [Object gimp, Object vlc] \<and> retainedOk loaded
   \<and> searchIndex loaded (Some (js ''v'')) \<noteq> None
   \<and> tools (init browser NotArray None initialState) = []
   \<and> snd (buildSearchIndex browser
        (initialState\<lparr>tools := retained (Array [Object gimp, Object broken])\<rparr>))
   \<and> tools failed = [] \<and> isInitialized failed \<and> retainedOk failed"
proof -
  have r: "reachable browser initialState" by (rule reachable.start)
  have "retainedOk loaded"
    using init_retains [OF r, of "Array [Object gimp, Null, Object vlc]" "Some (\<lambda>results. False)"]
    by (simp add: loaded_def)
  moreover from this have "searchIndex loaded (Some (js ''v'')) \<noteq> None"
    by (simp add: retainedOk_def loaded_fields get_def vlc_def)
  moreover have "tools (init browser NotArray None initialState) = []"
    using init_retains [OF r, of NotArray None] fresh_initialState by simp
  moreover have t: "snd (buildSearchIndex browser
        (initialState\<lparr>tools := retained (Array [Object gimp, Object broken])\<rparr>))"
    using untyped_failed by (simp add: snd_buildSearchIndex retained_threw)
  moreover have "tools failed = [] \<and> isInitialized failed \<and> retainedOk failed"
    using init_retains [OF r, of "Array [Object gimp, Object broken]" "Some (\<lambda>results. False)"]
      fresh_initialState t
    by (simp add: failed_def)
  ultimately show ?thesis using r fresh_initialState by (simp add: loaded_fields)
qed

section \<open>The claims about performSearch\<close>




text \<open>
  Claim C6, as stated, fails: the \<^verbatim>\<open>catch\<close> block calls the results callback itself,
  outside any \<^verbatim>\<open>try\<close>, so with a callback that throws on every call the exception
  reaches the caller of \<^verbatim>\<open>performSearch\<close>.
\<close>

theorem performSearch_propagates_counterexample:
  "propagated (performSearch browser throwing)"
  by (simp add: propagated_performSearch threw_tryBlock throwing_def
      init_fresh [OF fresh_initialState typed_gimp] notifyResults_def initialState_fields)

text \<open>
  Claim C6, amended. If a step of the \<^verbatim>\<open>try\<close> block of \<^verbatim>\<open>performSearch\<close> throws, the
  exception is caught, the full unfiltered tools list is handed to \<^verbatim>\<open>notifyResults\<close>
  (which calls the results callback when one is registered) as fallback, and the tools
  list and the filter state are left unchanged; the exception reaches the caller exactly
  when this fallback call of the callback throws.
\<close>

theorem performSearch_catch:
  assumes "threw (tryBlock h st)"
  shows "delivered (performSearch h st) = [searchResults h st, tools st]
         \<and> (propagated (performSearch h st) \<longleftrightarrow> notifyResults st (tools st))
         \<and> tools (after (performSearch h st)) = tools st
         \<and> query (after (performSearch h st)) = query st
         \<and> category (after (performSearch h st)) = category st
         \<and> platforms (after (performSearch h st)) = platforms st
         \<and> tags (after (performSearch h st)) = tags st"
proof -
  from assms have "Some (searchKey st) \<noteq> lastProcessedKey st"
    by (simp add: threw_tryBlock)
  then have "delivered (performSearch h st) = [searchResults h st, tools st]"
    using assms by (simp add: delivered_performSearch handed_tryBlock)
  moreover have "propagated (performSearch h st) \<longleftrightarrow> notifyResults st (tools st)"
    using assms by (simp add: propagated_performSearch)
  ultimately show ?thesis by simp
qed

theorem performSearch_catch_witness:
  "threw (tryBlock noAnnouncer loaded)
   \<and> delivered (performSearch noAnnouncer loaded) = [searchResults noAnnouncer loaded, tools loaded]
   \<and> \<not> propagated (performSearch noAnnouncer loaded)"
proof -
  have t: "threw (tryBlock noAnnouncer loaded)"
    by (simp add: threw_tryBlock noAnnouncer_def loaded_def
        init_fresh [OF fresh_initialState typed_loaded] initialState_fields)
  have "\<not> notifyResults loaded (tools loaded)"
    by (simp add: notifyResults_def loaded_def init_fresh [OF fresh_initialState typed_loaded])
  with performSearch_catch [OF t] t show ?thesis by simp
qed

lemma calculateMatchScore_host:
  assumes "toLowerCase h1 = toLowerCase h2"
  shows "calculateMatchScore h1 = calculateMatchScore h2"
  by (intro ext) (simp add: calculateMatchScore_def assms cong: option.case_cong)

lemma filterStage_cong:
  assumes "tools st1 = tools st2" "category st1 = category st2"
    "platforms st1 = platforms st2" "tags st1 = tags st2"
  shows "filterStage st1 = filterStage st2"
  by (simp add: filterStage_def Let_def assms)

lemma queryStage_cong:
  assumes "toLowerCase h1 = toLowerCase h2" "searchIndex st1 = searchIndex st2"
    "query st1 = query st2"
  shows "queryStage h1 st1 xs = queryStage h2 st2 xs"
  by (simp add: queryStage_def Let_def assms(2,3) calculateMatchScore_host [OF assms(1)])

lemma searchResults_cong:
  assumes "toLowerCase h1 = toLowerCase h2" "tools st1 = tools st2"
    "searchIndex st1 = searchIndex st2" "query st1 = query st2" "category st1 = category st2"
    "platforms st1 = platforms st2" "tags st1 = tags st2"
  shows "searchResults h1 st1 = searchResults h2 st2"
  unfolding searchResults_def
  by (simp only: filterStage_cong [OF assms(2,5,6,7)] queryStage_cong [OF assms(1,3,4)])

lemma searchResults_ties:
  "filter (\<lambda>tool. score h st tool = k) (searchResults h st)
   = filter (\<lambda>tool. score h st tool = k)
       (filter (\<lambda>tool. query st = [] \<or> 0 < score h st tool) (filterStage st))"
proof (cases "query st = []")
  case True
  then show ?thesis by (simp add: searchResults_def queryStage_empty)
next
  case False
  have "filter (\<lambda>tool. - score h st tool = - k)
          (sort_key (\<lambda>t. - score h st t) (filter (\<lambda>t. 0 < score h st t) (filterStage st)))
        = filter (\<lambda>tool. - score h st tool = - k) (filter (\<lambda>t. 0 < score h st t) (filterStage st))"
    by (rule sort_key_stable)
  with False show ?thesis by (simp add: searchResults_def queryStage_sorted)
qed

text \<open>
  Claim C7. Two runs of \<^verbatim>\<open>performSearch\<close> over the same tools list (with the index built
  from it) and the same query, category, platforms and tags, neither of them skipped,
  produce the same result list, element for element, whatever the rest of the state and
  of the host is; tools with equal match scores stand in the result in the order they
  have in the tools list.
\<close>

theorem performSearch_deterministic:
  assumes "toLowerCase h1 = toLowerCase h2" "tools st1 = tools st2"
    "searchIndex st1 = searchIndex st2" "query st1 = query st2" "category st1 = category st2"
    "platforms st1 = platforms st2" "tags st1 = tags st2"
    and "delivered (performSearch h1 st1) \<noteq> []" "delivered (performSearch h2 st2) \<noteq> []"
  shows "hd (delivered (performSearch h1 st1)) = hd (delivered (performSearch h2 st2))
         \<and> (\<forall>k. filter (\<lambda>tool. score h1 st1 tool = k) (hd (delivered (performSearch h1 st1)))
                = filter (\<lambda>tool. score h1 st1 tool = k)
                    (filter (\<lambda>tool. query st1 = [] \<or> 0 < score h1 st1 tool) (filterStage st1)))"
proof -
  have a: "hd (delivered (performSearch h1 st1)) = searchResults h1 st1"
    using assms(8) by (simp add: delivered_empty hd_delivered)
  have b: "hd (delivered (performSearch h2 st2)) = searchResults h2 st2"
    using assms(9) by (simp add: delivered_empty hd_delivered)
  have c: "searchResults h2 st2 = searchResults h1 st1"
    using searchResults_cong [OF assms(1-7)] by simp
  show ?thesis
    by (simp only: a b c searchResults_ties) simp
qed

theorem performSearch_deterministic_witness:
  "delivered (performSearch browser searchL) \<noteq> []
   \<and> delivered (performSearch noAnnouncer (searchL\<lparr>onResultsCallback := None\<rparr>)) \<noteq> []
   \<and> hd (delivered (performSearch browser searchL))
       = hd (delivered (performSearch noAnnouncer (searchL\<lparr>onResultsCallback := None\<rparr>)))"
proof -
  have k: "Some (searchKey searchL) \<noteq> lastProcessedKey searchL"
    by (simp add: searchL_def loaded_fields)
  then have d1: "delivered (performSearch browser searchL) \<noteq> []"
    by (simp add: delivered_empty)
  have "Some (searchKey (searchL\<lparr>onResultsCallback := None\<rparr>))
          \<noteq> lastProcessedKey (searchL\<lparr>onResultsCallback := None\<rparr>)"
    by (simp add: searchL_def loaded_fields)
  then have d2: "delivered (performSearch noAnnouncer (searchL\<lparr>onResultsCallback := None\<rparr>)) \<noteq> []"
    by (simp add: delivered_empty)
  have "hd (delivered (performSearch browser searchL))
       = hd (delivered (performSearch noAnnouncer (searchL\<lparr>onResultsCallback := None\<rparr>)))"
    using performSearch_deterministic
      [of browser noAnnouncer searchL "searchL\<lparr>onResultsCallback := None\<rparr>", OF _ _ _ _ _ _ _ d1 d2]
    by (simp add: noAnnouncer_def)
  with d1 d2 show ?thesis by simp
qed

section \<open>The edit distance\<close>

lemma lev_Nil2 [simp]: "lev xs [] = length xs"
  by (cases xs) simp_all

lemma lev_sym: "lev xs ys = lev ys xs"
  by (induction xs ys rule: lev.induct) (simp_all add: min.commute min.left_commute)

lemma lev_same [simp]: "lev xs xs = 0"
  by (induction xs) simp_all

lemma lev_zero: "lev xs ys = 0 \<longleftrightarrow> xs = ys"
  by (induction xs ys rule: lev.induct) auto

text \<open>One more unit at the front of either argument changes the value by at most one.\<close>

lemma lev_front:
  "lev (x # xs) ys \<le> Suc (lev xs ys) \<and> lev xs ys \<le> Suc (lev xs (y # ys))"
proof (induction "length xs + length ys" arbitrary: xs ys x y rule: less_induct)
  case less
  have first: "lev (x # xs) ys \<le> Suc (lev xs ys)" for x
  proof (cases ys)
    case Nil
    then show ?thesis by simp
  next
    case (Cons y' ys')
    have "lev xs ys' \<le> Suc (lev xs (y' # ys'))"
      using less [of xs ys' x y'] Cons by simp
    then show ?thesis using Cons by (simp add: min_le_iff_disj)
  qed
  have second: "lev xs ys \<le> Suc (lev xs (y # ys))"
  proof (cases xs)
    case Nil
    then show ?thesis by simp
  next
    case (Cons x' xs')
    have a: "lev (x' # xs') ys \<le> Suc (lev xs' ys)"
      using less [of xs' ys x' y] Cons by simp
    have b: "lev xs' ys \<le> Suc (lev xs' (y # ys))"
      using less [of xs' ys x' y] Cons by simp
    show ?thesis using Cons a b by (auto simp: min_def)
  qed
  from first second show ?case by blast
qed


lemma min3_bound:
  "(l::nat) \<le> Suc a \<Longrightarrow> a \<le> Suc b \<Longrightarrow> l \<le> Suc c \<Longrightarrow> l \<le> Suc (Suc (min a (min b c)))"
  by (simp add: min_def)

lemma min3_cases:
  "min a (min b c) = a \<or> min a (min b c) = b \<or> min a (min b c) = (c::nat)"
  by (simp add: min_def)

lemma min3_mono:
  "(a::nat) \<le> Suc a' \<Longrightarrow> b \<le> Suc b' \<Longrightarrow> c \<le> Suc c'
   \<Longrightarrow> min a (min b c) \<le> Suc (min a' (min b' c'))"
  by (simp add: min_def)

lemma lev_Cons2_le: "lev xs (y # ys) \<le> Suc (lev xs ys)"
proof -
  have "lev (y # ys) xs \<le> Suc (lev ys xs)"
    using lev_front [of y ys xs] by blast
  then show ?thesis
    by (simp only: lev_sym [of xs "y # ys"] lev_sym [of xs ys])
qed

lemma lev_drop2_le: "lev xs ys \<le> Suc (lev xs (y # ys))"
  using lev_front [of _ xs ys y] by blast

lemma lev_head_le: "lev (x # xs) (c # vs) \<le> Suc (lev xs vs)"
  by (simp add: min_le_iff_disj)

lemma lev_subst_front: "lev a (d # vs) \<le> Suc (lev a (c # vs))"
proof (cases a)
  case Nil
  then show ?thesis by simp
next
  case (Cons x a')
  have h1: "lev (x # a') (d # vs) \<le> Suc (lev a' vs)" by (rule lev_head_le)
  have h2: "lev a' vs \<le> Suc (lev a' (c # vs))" by (rule lev_drop2_le)
  have h3: "lev (x # a') (d # vs) \<le> Suc (lev (x # a') vs)" by (rule lev_Cons2_le)
  show ?thesis
  proof (cases "x = c")
    case True
    with Cons h1 show ?thesis by simp
  next
    case False
    have "lev (x # a') (c # vs)
        = Suc (min (lev a' vs) (min (lev a' (c # vs)) (lev (x # a') vs)))"
      using False by simp
    moreover have "lev (x # a') (d # vs)
        \<le> Suc (Suc (min (lev a' vs) (min (lev a' (c # vs)) (lev (x # a') vs))))"
      using h1 h2 h3 by (rule min3_bound)
    ultimately show ?thesis using Cons by simp
  qed
qed

lemma lev_lift_Cons:
  assumes "\<And>a. lev a ys \<le> Suc (lev a ys')"
  shows "lev a (u # ys) \<le> Suc (lev a (u # ys'))"
proof (induction a)
  case Nil
  from assms [of "[]"] show ?case by simp
next
  case (Cons x a')
  show ?case
  proof (cases "x = u")
    case True
    with assms [of a'] show ?thesis by simp
  next
    case False
    have "min (lev a' ys) (min (lev a' (u # ys)) (lev (x # a') ys))
        \<le> Suc (min (lev a' ys') (min (lev a' (u # ys')) (lev (x # a') ys')))"
      using assms [of a'] Cons.IH assms [of "x # a'"] by (rule min3_mono)
    with False show ?thesis by simp
  qed
qed

lemma lev_lift_append:
  assumes "\<And>a. lev a ys \<le> Suc (lev a ys')"
  shows "lev a (us @ ys) \<le> Suc (lev a (us @ ys'))"
proof (induction us arbitrary: a)
  case Nil
  then show ?case using assms by simp
next
  case (Cons u us)
  have "lev a (u # (us @ ys)) \<le> Suc (lev a (u # (us @ ys')))"
    by (rule lev_lift_Cons) (rule Cons.IH)
  then show ?case by simp
qed

lemma lev_edit1: "edit1 b b' \<Longrightarrow> lev a b' \<le> Suc (lev a b)"
proof (induction rule: edit1.induct)
  case (insertion us vs c)
  show ?case by (rule lev_lift_append) (rule lev_Cons2_le)
next
  case (deletion us c vs)
  show ?case by (rule lev_lift_append) (rule lev_drop2_le)
next
  case (substitution c d us vs)
  show ?case by (rule lev_lift_append) (rule lev_subst_front)
qed

lemma lev_lower: "(edit1 ^^ n) a b \<Longrightarrow> lev a b \<le> n"
proof (induction n arbitrary: b)
  case 0
  then show ?case by simp
next
  case (Suc n)
  from Suc.prems obtain b' where steps: "(edit1 ^^ n) a b'" and last: "edit1 b' b"
    by auto
  have "lev a b \<le> Suc (lev a b')" using last by (rule lev_edit1)
  also have "\<dots> \<le> Suc n" using Suc.IH [OF steps] by simp
  finally show ?case .
qed

lemma edit1_Cons: "edit1 xs ys \<Longrightarrow> edit1 (x # xs) (x # ys)"
proof (induction rule: edit1.induct)
  case (insertion us vs c)
  show ?case using edit1.insertion [of "x # us" vs c] by simp
next
  case (deletion us c vs)
  show ?case using edit1.deletion [of "x # us" c vs] by simp
next
  case (substitution c d us vs)
  then show ?case using edit1.substitution [of c d "x # us" vs] by simp
qed

lemma edits_Cons: "(edit1 ^^ n) xs ys \<Longrightarrow> (edit1 ^^ n) (x # xs) (x # ys)"
proof (induction n arbitrary: ys)
  case 0
  then show ?case by simp
next
  case (Suc n)
  from Suc.prems obtain zs where a: "(edit1 ^^ n) xs zs" and b: "edit1 zs ys" by auto
  have "(edit1 ^^ n) (x # xs) (x # zs)" using a by (rule Suc.IH)
  moreover have "edit1 (x # zs) (x # ys)" using b by (rule edit1_Cons)
  ultimately show ?case by (rule relpowp_Suc_I)
qed

lemma edit1_front:
  "edit1 ys (y # ys)" "edit1 (x # xs) xs" "x \<noteq> y \<Longrightarrow> edit1 (x # xs) (y # xs)"
  using edit1.insertion [of "[]" ys y] edit1.deletion [of "[]" x xs]
    edit1.substitution [of x y "[]" xs] by simp_all

lemma edits_insert_all: "(edit1 ^^ length ys) [] ys"
proof (induction ys)
  case Nil
  then show ?case by simp
next
  case (Cons y ys)
  have "(edit1 ^^ Suc (length ys)) [] (y # ys)"
    using Cons.IH edit1_front(1) [of ys y] by (rule relpowp_Suc_I)
  then show ?case by simp
qed

lemma edits_delete_all: "(edit1 ^^ length xs) xs []"
proof (induction xs)
  case Nil
  then show ?case by simp
next
  case (Cons x xs)
  have "(edit1 ^^ Suc (length xs)) (x # xs) []"
    using edit1_front(2) [of x xs] Cons.IH by (rule relpowp_Suc_I2)
  then show ?case by simp
qed

lemma lev_upper: "(edit1 ^^ lev a b) a b"
proof (induction a b rule: lev.induct)
  case (1 ys)
  show ?case using edits_insert_all [of ys] by simp
next
  case (2 x xs)
  show ?case using edits_delete_all [of "x # xs"] by simp
next
  case (3 x xs y ys)
  show ?case
  proof (cases "x = y")
    case True
    then have eq: "lev (x # xs) (y # ys) = lev xs ys" by simp
    have "(edit1 ^^ lev xs ys) (x # xs) (x # ys)"
      using 3(1) [OF True] by (rule edits_Cons)
    then show ?thesis unfolding eq using True by (simp only:)
  next
    case False
    let ?m = "min (lev xs ys) (min (lev xs (y # ys)) (lev (x # xs) ys))"
    have eq: "lev (x # xs) (y # ys) = Suc ?m" using False by simp
    have "(edit1 ^^ Suc ?m) (x # xs) (y # ys)"
    proof -
      have "?m = lev xs ys \<or> ?m = lev xs (y # ys) \<or> ?m = lev (x # xs) ys"
        by (rule min3_cases)
      then show ?thesis
      proof (elim disjE)
        assume sub: "?m = lev xs ys"
        have "(edit1 ^^ lev xs ys) (y # xs) (y # ys)"
          using 3(2) [OF False] by (rule edits_Cons)
        with edit1_front(3) [OF False, of xs] have "(edit1 ^^ Suc (lev xs ys)) (x # xs) (y # ys)"
          by (rule relpowp_Suc_I2)
        then show ?thesis by (simp only: sub)
      next
        assume del: "?m = lev xs (y # ys)"
        have "(edit1 ^^ Suc (lev xs (y # ys))) (x # xs) (y # ys)"
          using edit1_front(2) [of x xs] 3(3) [OF False] by (rule relpowp_Suc_I2)
        then show ?thesis by (simp only: del)
      next
        assume ins: "?m = lev (x # xs) ys"
        have "(edit1 ^^ Suc (lev (x # xs) ys)) (x # xs) (y # ys)"
          using 3(4) [OF False] edit1_front(1) [of ys y] by (rule relpowp_Suc_I)
        then show ?thesis by (simp only: ins)
      qed
    qed
    then show ?thesis by (simp only: eq)
  qed
qed

lemma editDistance_lev: "editDistance a b = lev a b"
  unfolding editDistance_def
  by (rule Least_equality) (simp_all add: lev_upper lev_lower)

lemma edit1_rev: "edit1 xs ys \<Longrightarrow> edit1 (rev xs) (rev ys)"
proof (induction rule: edit1.induct)
  case (insertion us vs c)
  show ?case using edit1.insertion [of "rev vs" "rev us" c] by simp
next
  case (deletion us c vs)
  show ?case using edit1.deletion [of "rev vs" c "rev us"] by simp
next
  case (substitution c d us vs)
  then show ?case using edit1.substitution [of c d "rev vs" "rev us"] by simp
qed

lemma edits_rev: "(edit1 ^^ n) xs ys \<Longrightarrow> (edit1 ^^ n) (rev xs) (rev ys)"
proof (induction n arbitrary: ys)
  case 0
  then show ?case by simp
next
  case (Suc n)
  from Suc.prems obtain zs where a: "(edit1 ^^ n) xs zs" and b: "edit1 zs ys" by auto
  have "(edit1 ^^ n) (rev xs) (rev zs)" using a by (rule Suc.IH)
  moreover have "edit1 (rev zs) (rev ys)" using b by (rule edit1_rev)
  ultimately show ?case by (rule relpowp_Suc_I)
qed

lemma lev_rev_le: "lev (rev a) (rev b) \<le> lev a b"
  by (rule lev_lower) (rule edits_rev, rule lev_upper)

lemma lev_rev: "lev (rev a) (rev b) = lev a b"
  using lev_rev_le [of a b] lev_rev_le [of "rev a" "rev b"] by simp

section \<open>The matrix of levenshteinDistance\<close>

lemma prefixDistance_row0: "j \<le> length a \<Longrightarrow> prefixDistance a b 0 j = j"
  by (simp add: prefixDistance_def)

lemma prefixDistance_col0: "i \<le> length b \<Longrightarrow> prefixDistance a b i 0 = i"
  by (simp add: prefixDistance_def)

lemma prefixDistance_step:
  assumes "i < length b" "j < length a"
  shows "prefixDistance a b (Suc i) (Suc j) =
    (if b ! i = a ! j then prefixDistance a b i j
     else min (prefixDistance a b i j + 1)
            (min (prefixDistance a b (Suc i) j + 1) (prefixDistance a b i (Suc j) + 1)))"
proof -
  have ta: "rev (take (Suc j) a) = a ! j # rev (take j a)"
    using assms(2) by (simp add: take_Suc_conv_app_nth)
  have tb: "rev (take (Suc i) b) = b ! i # rev (take i b)"
    using assms(1) by (simp add: take_Suc_conv_app_nth)
  have "lev (a ! j # rev (take j a)) (b ! i # rev (take i b)) =
    (if b ! i = a ! j then lev (rev (take j a)) (rev (take i b))
     else min (lev (rev (take j a)) (rev (take i b)) + 1)
            (min (lev (rev (take j a)) (b ! i # rev (take i b)) + 1)
                 (lev (a ! j # rev (take j a)) (rev (take i b)) + 1)))"
    by (auto simp del: lev.simps(3) simp add: lev.simps(3) [of "a ! j" _ "b ! i"])
  then show ?thesis
    unfolding prefixDistance_def ta tb .
qed

lemma fullRow_0: "fullRow a b 0 = [0..<Suc (length a)]"
  unfolding fullRow_def
  by (rule map_idI) (simp add: prefixDistance_row0 less_Suc_eq_le del: upt_Suc)

lemma initRows_spec:
  "length m = i \<Longrightarrow> i \<le> Suc n \<Longrightarrow> initRows i n m = Some (m @ map (\<lambda>k. [k]) [i..<Suc n])"
proof (induction "Suc n - i" arbitrary: i m)
  case 0
  then have "i = Suc n" by simp
  then show ?case by (subst initRows.simps) simp
next
  case (Suc d)
  then have le: "i \<le> n" by simp
  have as: "assignAt m i [i] = Some (m @ [[i]])"
    using Suc.prems(1) by (simp add: assignAt_def)
  have "initRows (Suc i) n (m @ [[i]]) = Some ((m @ [[i]]) @ map (\<lambda>k. [k]) [Suc i..<Suc n])"
    using Suc.hyps Suc.prems le by (intro Suc.hyps(1)) simp_all
  moreover have "[i..<Suc n] = i # [Suc i..<Suc n]"
    using le by (simp add: upt_conv_Cons)
  ultimately show ?case
    using le as by (subst initRows.simps) simp
qed

lemma setCell_row0:
  "setCell ([0..<j] # rest) 0 j j = Some ([0..<Suc j] # rest)"
  by (simp add: setCell_def readAt_def assignAt_def)

lemma initCols_spec:
  "1 \<le> j \<Longrightarrow> j \<le> Suc n \<Longrightarrow> initCols j n ([0..<j] # rest) = Some ([0..<Suc n] # rest)"
proof (induction "Suc n - j" arbitrary: j)
  case 0
  then have "j = Suc n" by simp
  then show ?case by (subst initCols.simps) simp
next
  case (Suc d)
  then have le: "j \<le> n" by simp
  have "initCols (Suc j) n ([0..<Suc j] # rest) = Some ([0..<Suc n] # rest)"
    using Suc.hyps le by (intro Suc.hyps(1)) simp_all
  then show ?case
    using le by (subst initCols.simps) (simp add: setCell_row0)
qed

lemma initCols_start:
  "initCols 0 n ([0] # rest) = Some ([0..<Suc n] # rest)"
proof -
  have "setCell ([0] # rest) 0 0 0 = Some ([0] # rest)"
    by (simp add: setCell_def readAt_def assignAt_def)
  then have "initCols 0 n ([0] # rest) = initCols 1 n ([0..<1] # rest)"
    by (subst initCols.simps) simp
  also have "\<dots> = Some ([0..<Suc n] # rest)"
    by (rule initCols_spec) simp_all
  finally show ?thesis .
qed

lemma cell_read:
  "i < length m \<Longrightarrow> j < length (m ! i) \<Longrightarrow> cell m i j = Some (m ! i ! j)"
  by (simp add: cell_def readAt_def)

lemma setCell_append:
  "i < length m \<Longrightarrow> j = length (m ! i) \<Longrightarrow> setCell m i j v = Some (m[i := m ! i @ [v]])"
  by (simp add: setCell_def readAt_def assignAt_def)

lemma innerLoop_spec:
  assumes "i < length m" "1 \<le> i" "i \<le> length b"
    and "m ! (i - 1) = fullRow a b (i - 1)"
    and "m ! i = map (prefixDistance a b i) [0..<j]"
    and "1 \<le> j" "j \<le> Suc (length a)"
  shows "innerLoop a b i j m = Some (m[i := fullRow a b i])"
  using assms
proof (induction "Suc (length a) - j" arbitrary: j m)
  case 0
  then have "j = Suc (length a)" by simp
  with 0 have "m[i := fullRow a b i] = m"
    by (simp add: fullRow_def list_update_same_conv)
  with \<open>j = Suc (length a)\<close> show ?case by (subst innerLoop.simps) simp
next
  case (Suc d)
  then have le: "j \<le> length a" by simp
  obtain i' j' where ij: "i = Suc i'" "j = Suc j'"
    using Suc.prems(2,6) by (cases i; cases j) simp_all
  have i'b: "i' < length b" and j'a: "j' < length a"
    using ij Suc.prems(3) le by simp_all
  have prev: "m ! i' = fullRow a b i'" using Suc.prems(4) ij by simp
  have cur: "m ! i = map (prefixDistance a b i) [0..<j]" by (rule Suc.prems(5))
  have i'm: "i' < length m" using Suc.prems(1) ij by simp
  have c1: "cell m i' j' = Some (prefixDistance a b i' j')"
    using i'm prev j'a by (simp add: cell_read fullRow_def del: upt_Suc)
  have c2: "cell m i j' = Some (prefixDistance a b i j')"
    using Suc.prems(1) cur ij by (simp add: cell_read del: upt_Suc)
  have c3: "cell m i' j = Some (prefixDistance a b i' j)"
    using i'm prev le by (simp add: cell_read fullRow_def del: upt_Suc)
  have chars: "charAt b i' = charAt a j' \<longleftrightarrow> b ! i' = a ! j'"
    using i'b j'a by (simp add: charAt_def)
  let ?v = "prefixDistance a b i j"
  have v: "(if charAt b (i - 1) = charAt a (j - 1) then cell m (i - 1) (j - 1)
            else do { x \<leftarrow> cell m (i - 1) (j - 1);
                      y \<leftarrow> cell m i (j - 1);
                      z \<leftarrow> cell m (i - 1) j;
                      Some (min (x + 1) (min (y + 1) (z + 1))) }) = Some ?v"
    using c1 c2 c3 chars prefixDistance_step [OF i'b j'a] ij by simp
  have sc: "setCell m i j ?v = Some (m[i := map (prefixDistance a b i) [0..<Suc j]])"
    using Suc.prems(1) cur by (simp add: setCell_append)
  let ?m1 = "m[i := map (prefixDistance a b i) [0..<Suc j]]"
  have rec: "innerLoop a b i (Suc j) ?m1 = Some (?m1[i := fullRow a b i])"
  proof (rule Suc.hyps(1))
    show "d = Suc (length a) - Suc j" using Suc.hyps(2) by simp
    show "i < length ?m1" using Suc.prems(1) by simp
    show "1 \<le> i" by (rule Suc.prems(2))
    show "i \<le> length b" by (rule Suc.prems(3))
    show "?m1 ! (i - 1) = fullRow a b (i - 1)"
      using Suc.prems(4) ij by simp
    show "?m1 ! i = map (prefixDistance a b i) [0..<Suc j]"
      using Suc.prems(1) by simp
    show "1 \<le> Suc j" by simp
    show "Suc j \<le> Suc (length a)" using le by simp
  qed
  show ?case
    using le by (subst innerLoop.simps) (simp only: v, simp add: sc rec del: upt_Suc)
qed

lemma outerLoop_spec:
  assumes "length m = Suc (length b)" "1 \<le> i" "i \<le> Suc (length b)"
    and "\<forall>r<i. m ! r = fullRow a b r"
    and "\<forall>r. i \<le> r \<and> r \<le> length b \<longrightarrow> m ! r = [r]"
  shows "\<exists>m'. outerLoop a b i m = Some m' \<and> length m' = Suc (length b)
           \<and> (\<forall>r \<le> length b. m' ! r = fullRow a b r)"
  using assms
proof (induction "Suc (length b) - i" arbitrary: i m)
  case 0
  then have "i = Suc (length b)" by simp
  with 0 show ?case by (subst outerLoop.simps) simp
next
  case (Suc d)
  then have le: "i \<le> length b" by simp
  have im: "i < length m" using le Suc.prems(1) by simp
  have inner: "innerLoop a b i 1 m = Some (m[i := fullRow a b i])"
  proof (rule innerLoop_spec [OF im Suc.prems(2) le])
    show "m ! (i - 1) = fullRow a b (i - 1)" using Suc.prems(2,4) by simp
    show "m ! i = map (prefixDistance a b i) [0..<1]"
      using Suc.prems(5) le by (simp add: prefixDistance_col0)
  qed simp_all
  let ?m1 = "m[i := fullRow a b i]"
  have "\<exists>m'. outerLoop a b (Suc i) ?m1 = Some m' \<and> length m' = Suc (length b)
           \<and> (\<forall>r \<le> length b. m' ! r = fullRow a b r)"
  proof (rule Suc.hyps(1))
    show "d = Suc (length b) - Suc i" using Suc.hyps(2) by simp
    show "length ?m1 = Suc (length b)" using Suc.prems(1) by simp
    show "1 \<le> Suc i" by simp
    show "Suc i \<le> Suc (length b)" using le by simp
    show "\<forall>r<Suc i. ?m1 ! r = fullRow a b r"
      using Suc.prems(4) im by (auto simp: nth_list_update less_Suc_eq)
    show "\<forall>r. Suc i \<le> r \<and> r \<le> length b \<longrightarrow> ?m1 ! r = [r]"
      using Suc.prems(5) by (auto simp: nth_list_update)
  qed
  then show ?case
    using le inner by (subst outerLoop.simps) simp
qed

lemma levenshteinDistance_lev: "levenshteinDistance a b = Some (lev a b)"
proof (cases "a = [] \<or> b = []")
  case True
  then show ?thesis by (auto simp: levenshteinDistance_def)
next
  case False
  then have na: "a \<noteq> []" and nb: "b \<noteq> []" by simp_all
  let ?rows = "map (\<lambda>k. [k]) [0..<Suc (length b)]"
  have r0: "initRows 0 (length b) [] = Some ?rows"
    using initRows_spec [of "[]" 0 "length b"] by simp
  have rows: "?rows = [0] # map (\<lambda>k. [k]) [1..<Suc (length b)]"
    by (simp add: upt_conv_Cons del: upt_Suc)
  let ?m1 = "[0..<Suc (length a)] # map (\<lambda>k. [k]) [1..<Suc (length b)]"
  have c0: "initCols 0 (length a) ?rows = Some ?m1"
    unfolding rows by (rule initCols_start)
  have "\<exists>m'. outerLoop a b 1 ?m1 = Some m' \<and> length m' = Suc (length b)
           \<and> (\<forall>r \<le> length b. m' ! r = fullRow a b r)"
  proof (rule outerLoop_spec)
    show "length ?m1 = Suc (length b)" by (simp del: upt_Suc)
    show "\<forall>r<1. ?m1 ! r = fullRow a b r"
      by (simp add: fullRow_0 del: upt_Suc)
    show "\<forall>r. 1 \<le> r \<and> r \<le> length b \<longrightarrow> ?m1 ! r = [r]"
    proof (intro allI impI)
      fix r assume r: "1 \<le> r \<and> r \<le> length b"
      then obtain r' where r': "r = Suc r'" by (cases r) simp_all
      with r have "r' < length [1..<Suc (length b)]" by simp
      then show "?m1 ! r = [r]" using r' by (simp del: upt_Suc)
    qed
  qed simp_all
  then obtain m' where m': "outerLoop a b 1 ?m1 = Some m'" "length m' = Suc (length b)"
    "\<forall>r \<le> length b. m' ! r = fullRow a b r" by blast
  have "cell m' (length b) (length a) = Some (prefixDistance a b (length b) (length a))"
    using m'(2,3) by (simp add: cell_read fullRow_def del: upt_Suc)
  then have "levenshteinDistance a b = Some (prefixDistance a b (length b) (length a))"
    using na nb r0 c0 m'(1) by (simp add: levenshteinDistance_def)
  then show ?thesis by (simp add: prefixDistance_def lev_rev)
qed

text \<open>
  Claim C3. For all strings \<open>a\<close> and \<open>b\<close>, \<^verbatim>\<open>levenshteinDistance(a, b)\<close> returns the
  standard edit distance: \<open>b\<close> is reached from \<open>a\<close> by that many insertions, deletions
  and substitutions of single units, and by no fewer. Hence it is 0 exactly when the
  strings are equal, and it is symmetric.
\<close>

theorem levenshteinDistance_editDistance:
  "levenshteinDistance a b = Some (editDistance a b)
   \<and> (edit1 ^^ editDistance a b) a b
   \<and> (\<forall>n. (edit1 ^^ n) a b \<longrightarrow> editDistance a b \<le> n)
   \<and> (levenshteinDistance a b = Some 0 \<longleftrightarrow> a = b)
   \<and> levenshteinDistance a b = levenshteinDistance b a"
proof -
  have "levenshteinDistance a b = Some (editDistance a b)"
    by (simp add: levenshteinDistance_lev editDistance_lev)
  moreover have "(edit1 ^^ editDistance a b) a b"
    by (simp add: editDistance_lev lev_upper)
  moreover have "\<forall>n. (edit1 ^^ n) a b \<longrightarrow> editDistance a b \<le> n"
    by (simp add: editDistance_lev lev_lower)
  moreover have "levenshteinDistance a b = Some 0 \<longleftrightarrow> a = b"
    by (simp add: levenshteinDistance_lev lev_zero)
  moreover have "levenshteinDistance a b = levenshteinDistance b a"
    using lev_sym [of a b] by (simp add: levenshteinDistance_lev)
  ultimately show ?thesis by blast
qed

theorem levenshteinDistance_editDistance_witness:
  "(edit1 ^^ 3) (js ''kitten'') (js ''sitting'')
   \<and> levenshteinDistance (js ''kitten'') (js ''sitting'') = Some 3
   \<and> editDistance (js ''kitten'') (js ''sitting'') = 3
   \<and> levenshteinDistance (js ''sitting'') (js ''kitten'') = Some 3"
proof -
  have k: "levenshteinDistance (js ''kitten'') (js ''sitting'') = Some 3"
    by code_simp
  note t = levenshteinDistance_editDistance [of "js ''kitten''" "js ''sitting''"]
  from t k have e: "editDistance (js ''kitten'') (js ''sitting'') = 3" by simp
  from t have "(edit1 ^^ editDistance (js ''kitten'') (js ''sitting'')) (js ''kitten'') (js ''sitting'')"
    by blast
  then have "(edit1 ^^ 3) (js ''kitten'') (js ''sitting'')" by (simp only: e)
  moreover from t k have "levenshteinDistance (js ''sitting'') (js ''kitten'') = Some 3"
    by simp
  ultimately show ?thesis using k e by blast
qed

section \<open>The match score\<close>

lemma startsWith_prefix: "startsWith s w \<longleftrightarrow> isPrefixOf w s"
  unfolding isPrefixOf_def
  by (induction s w rule: startsWith.induct) auto

lemma includes_substring: "includes_str s w \<longleftrightarrow> isSubstringOf w s"
proof (induction s)
  case Nil
  then show ?case by (auto simp: isSubstringOf_def)
next
  case (Cons c cs)
  have "isSubstringOf w (c # cs) \<longleftrightarrow> isPrefixOf w (c # cs) \<or> isSubstringOf w cs"
  proof
    assume "isSubstringOf w (c # cs)"
    then obtain p r where pr: "c # cs = p @ w @ r" by (auto simp: isSubstringOf_def)
    show "isPrefixOf w (c # cs) \<or> isSubstringOf w cs"
    proof (cases p)
      case Nil
      with pr show ?thesis by (auto simp: isPrefixOf_def)
    next
      case (Cons p1 ps)
      with pr have "cs = ps @ w @ r" by simp
      then show ?thesis by (auto simp: isSubstringOf_def)
    qed
  next
    assume "isPrefixOf w (c # cs) \<or> isSubstringOf w cs"
    then show "isSubstringOf w (c # cs)"
    proof
      assume "isPrefixOf w (c # cs)"
      then obtain r where "c # cs = [] @ w @ r" by (auto simp: isPrefixOf_def)
      then show ?thesis unfolding isSubstringOf_def by blast
    next
      assume "isSubstringOf w cs"
      then obtain p r where "cs = p @ w @ r" by (auto simp: isSubstringOf_def)
      then have "c # cs = (c # p) @ w @ r" by simp
      then show ?thesis unfolding isSubstringOf_def by blast
    qed
  qed
  with Cons show ?case by (simp add: startsWith_prefix)
qed

lemma Max_insert_max:
  "finite S \<Longrightarrow> Max (insert (max a b) S) = Max (insert a (insert b (S :: rat set)))"
  by (cases "S = {}") (simp_all add: max.assoc)

lemma fuzzyLoop_best:
  "fuzzyLoop q ws best =
     (if \<exists>w \<in> set ws. 2 \<le> length w \<and> isPrefixOf q w then 1
      else Max (insert best (similarity q ` {w \<in> set ws. 2 \<le> length w})))"
proof (induction ws arbitrary: best)
  case Nil
  then show ?case by simp
next
  case (Cons word rest)
  let ?S = "similarity q ` {w \<in> set rest. 2 \<le> length w}"
  have fin: "finite ?S" by simp
  show ?case
  proof (cases "length word < 2")
    case True
    then have sets: "{w \<in> set (word # rest). 2 \<le> length w} = {w \<in> set rest. 2 \<le> length w}"
      by auto
    have ex: "(\<exists>w \<in> set (word # rest). 2 \<le> length w \<and> isPrefixOf q w)
              = (\<exists>w \<in> set rest. 2 \<le> length w \<and> isPrefixOf q w)"
      using True by auto
    have "fuzzyLoop q (word # rest) best = fuzzyLoop q rest best"
      using True by simp
    then show ?thesis
      unfolding sets ex by (simp only: Cons.IH)
  next
    case long: False
    show ?thesis
    proof (cases "startsWith word q")
      case True
      with long show ?thesis by (auto simp: startsWith_prefix)
    next
      case False
      have set_eq: "{w \<in> set (word # rest). 2 \<le> length w}
                    = insert word {w \<in> set rest. 2 \<le> length w}"
        using long by auto
      have d: "levenshteinDistance q (take (length q + 2) word)
               = Some (editDistance q (take (length q + 2) word))"
        by (simp add: levenshteinDistance_lev editDistance_lev)
      have m: "(if best < s then s else best) = max best s" for s :: rat
        by (auto simp: max_def)
      have "fuzzyLoop q (word # rest) best
            = (let maxLen = max (length q) (length word);
                   similarity = 1 - of_nat (editDistance q (take (length q + 2) word))
                                      / of_nat maxLen
               in fuzzyLoop q rest (if similarity > best then similarity else best))"
        by (simp only: fuzzyLoop.simps long False if_False d option.case)
      then have step: "fuzzyLoop q (word # rest) best
                  = fuzzyLoop q rest (max best (similarity q word))"
        by (simp only: Let_def similarity_def m)
      have ex: "(\<exists>w \<in> set (word # rest). 2 \<le> length w \<and> isPrefixOf q w)
                = (\<exists>w \<in> set rest. 2 \<le> length w \<and> isPrefixOf q w)"
        using False by (auto simp: startsWith_prefix)
      have mx: "Max (insert (max best (similarity q word)) ?S)
            = Max (insert best (insert (similarity q word) ?S))"
        using fin by (rule Max_insert_max)
      show ?thesis
        unfolding step Cons.IH set_eq ex image_insert
        by (simp only: mx)
    qed
  qed
qed

lemma fuzzyMatch_best: "fuzzyMatch q ws = bestSimilarity q ws"
  by (simp add: fuzzyMatch_def bestSimilarity_def fuzzyLoop_best)

lemma wordScore_tier: "wordScore name tagline ix w = tierScore name tagline ix w"
  by (simp add: wordScore_def tierScore_def startsWith_prefix includes_substring
      fuzzyMatch_best list_ex_iff Let_def mult.commute)

lemma wordScore_nonneg: "0 \<le> wordScore name tagline ix w"
  by (simp add: wordScore_def Let_def FUZZY_THRESHOLD_def)

lemma scoreLoop_sum:
  "scoreLoop name tagline ix ws acc =
     (if \<exists>w \<in> set ws. wordScore name tagline ix w = 0 then 0
      else acc + sum_list (map (wordScore name tagline ix) ws))"
  by (induction ws arbitrary: acc) auto

text \<open>
  Claim C2. For a tool that has an entry in the search index and a non-empty list of query
  words, \<^verbatim>\<open>calculateMatchScore\<close> returns the sum over the query words of the tier score
  of the word (100 exact name, 80 name prefix, 60 name substring, 40 tagline prefix, 30
  tagline substring, 70 substring of an alternative, 20 substring of the indexed text,
  the floor of 15 times the best similarity when that exceeds the threshold), and 0 as
  soon as one word scores 0.
\<close>

theorem calculateMatchScore_tiers:
  assumes "truthy tool" and "index (get tool_id tool) = Some ix" and "ws \<noteq> []"
  shows "calculateMatchScore h index tool ws =
     (let name = toLowerCase h (orEmpty (get tool_name tool));
          tagline = toLowerCase h (orEmpty (get tool_tagline tool))
      in if \<exists>w \<in> set ws. tierScore name tagline ix w = 0 then 0
         else sum_list (map (tierScore name tagline ix) ws))"
proof -
  have "wordScore n t ix = tierScore n t ix" for n t
    by (rule ext) (rule wordScore_tier)
  then show ?thesis
    using assms by (simp add: calculateMatchScore_def scoreLoop_sum Let_def)
qed

lemma gimp_score:
  "calculateMatchScore browser gimpIndex (Object gimp) searchWords = 132"
  by code_simp

theorem calculateMatchScore_tiers_witness:
  "truthy (Object gimp)
   \<and> gimpIndex (get tool_id (Object gimp)) = Some (indexEntry browser (Object gimp))
   \<and> searchWords \<noteq> []
   \<and> calculateMatchScore browser gimpIndex (Object gimp) searchWords = 132
   \<and> (let name = toLowerCase browser (orEmpty (get tool_name (Object gimp)));
           tagline = toLowerCase browser (orEmpty (get tool_tagline (Object gimp)))
       in if \<exists>w \<in> set searchWords.
               tierScore name tagline (indexEntry browser (Object gimp)) w = 0 then 0
          else sum_list (map (tierScore name tagline (indexEntry browser (Object gimp)))
                 searchWords)) = 132"
proof -
  have t: "truthy (Object gimp)" by simp
  have i: "gimpIndex (get tool_id (Object gimp)) = Some (indexEntry browser (Object gimp))"
    by (simp add: gimpIndex_def)
  have w: "searchWords \<noteq> []" by (simp add: searchWords_def)
  note eq = calculateMatchScore_tiers
         [where tool = "Object gimp" and index = gimpIndex and h = browser
            and ix = "indexEntry browser (Object gimp)" and ws = searchWords, OF t i w]
  have "(let name = toLowerCase browser (orEmpty (get tool_name (Object gimp)));
           tagline = toLowerCase browser (orEmpty (get tool_tagline (Object gimp)))
       in if \<exists>w \<in> set searchWords.
               tierScore name tagline (indexEntry browser (Object gimp)) w = 0 then 0
          else sum_list (map (tierScore name tagline (indexEntry browser (Object gimp)))
                 searchWords)) = 132"
    unfolding eq [symmetric] by (rule gimp_score)
  with t i w gimp_score show ?thesis by (intro conjI)
qed

section \<open>sanitizeQuery at its limit\<close>

lemma set_replaceRuns: "set (replaceRuns inRun s) \<subseteq> insert 0x20 (set s)"
  by (induction s arbitrary: inRun) auto

lemma set_dropWhile_subset: "set (dropWhile P xs) \<subseteq> set xs"
  by (auto dest: set_dropWhileD)

lemma set_trim: "set (trim s) \<subseteq> set s"
proof -
  have "set (dropWhile isWhiteSpace (rev (dropWhile isWhiteSpace s)))
          \<subseteq> set (rev (dropWhile isWhiteSpace s))"
    by (rule set_dropWhile_subset)
  also have "\<dots> \<subseteq> set s" using set_dropWhile_subset [of isWhiteSpace s] by simp
  finally show ?thesis by (simp add: trim_def)
qed

lemma sanitizeQuery_shape:
  "sanitizeQuery h None = []
   \<and> (\<exists>q. sanitizeQuery h (Some s) = toLowerCase h q \<and> length q \<le> MAX_QUERY_LENGTH
          \<and> (\<forall>c \<in> set q. \<not> isControl c))"
proof -
  define clean where "clean = replaceRuns False (trim (filter (\<lambda>c. \<not> isControl c) s))"
  define q where "q = (if length clean > MAX_QUERY_LENGTH then take MAX_QUERY_LENGTH clean else clean)"
  have sp: "\<not> isControl (0x20 :: 16 word)" by (simp add: isControl_def)
  have "set clean \<subseteq> insert 0x20 (set (trim (filter (\<lambda>c. \<not> isControl c) s)))"
    unfolding clean_def by (rule set_replaceRuns)
  moreover have "set (trim (filter (\<lambda>c. \<not> isControl c) s)) \<subseteq> set (filter (\<lambda>c. \<not> isControl c) s)"
    by (rule set_trim)
  ultimately have "set clean \<subseteq> insert 0x20 (set (filter (\<lambda>c. \<not> isControl c) s))"
    by blast
  then have clean: "\<forall>c \<in> set clean. \<not> isControl c"
    using sp by auto
  have "set q \<subseteq> set clean" unfolding q_def by (auto dest: in_set_takeD)
  with clean have c: "\<forall>c \<in> set q. \<not> isControl c" by blast
  have l: "length q \<le> MAX_QUERY_LENGTH" unfolding q_def by simp
  have e: "sanitizeQuery h (Some s) = toLowerCase h q"
    unfolding q_def clean_def by (simp add: sanitizeQuery_def Let_def)
  have n: "sanitizeQuery h None = []" by (simp add: sanitizeQuery_def)
  from e l c have "\<exists>q. sanitizeQuery h (Some s) = toLowerCase h q \<and> length q \<le> MAX_QUERY_LENGTH
          \<and> (\<forall>c \<in> set q. \<not> isControl c)" by blast
  with n show ?thesis by (rule conjI)
qed

lemma dropWhile_plain: "\<forall>c \<in> set s. \<not> P c \<Longrightarrow> dropWhile P s = s"
  by (cases s) simp_all

lemma trim_plain: "\<forall>c \<in> set s. \<not> isWhiteSpace c \<Longrightarrow> trim s = s"
proof -
  assume a: "\<forall>c \<in> set s. \<not> isWhiteSpace c"
  then have "dropWhile isWhiteSpace s = s" by (rule dropWhile_plain)
  moreover from a have "dropWhile isWhiteSpace (rev s) = rev s"
    by (intro dropWhile_plain) simp
  ultimately show ?thesis by (simp add: trim_def)
qed

lemma replaceRuns_plain: "\<forall>c \<in> set s. \<not> isWhiteSpace c \<Longrightarrow> replaceRuns inRun s = s"
  by (induction s arbitrary: inRun) simp_all

lemma filter_plain: "\<forall>c \<in> set s. \<not> isControl c \<Longrightarrow> filter (\<lambda>c. \<not> isControl c) s = s"
  by (induction s) simp_all

lemma dotted_ws: "\<forall>c \<in> set dottedQuery. \<not> isWhiteSpace c"
  by (simp add: dottedQuery_def isWhiteSpace_def)

lemma dotted_ctl: "\<forall>c \<in> set dottedQuery. \<not> isControl c"
  by (simp add: dottedQuery_def isControl_def)

lemma dotted_len: "length dottedQuery = 100"
  by (simp add: dottedQuery_def)

lemma dotted_clean:
  "replaceRuns False (trim (filter (\<lambda>c. \<not> isControl c) dottedQuery)) = dottedQuery"
  by (simp only: filter_plain [OF dotted_ctl] trim_plain [OF dotted_ws]
      replaceRuns_plain [OF dotted_ws])

lemma dotted_sanitized: "sanitizeQuery browser (Some dottedQuery) = latinLower dottedQuery"
  unfolding sanitizeQuery_def option.case Let_def dotted_clean dotted_len MAX_QUERY_LENGTH_def
  by (simp add: browser_def)

lemma lowerUnit_a: "lowerUnit 0x61 = [0x61]"
  by (simp add: lowerUnit_def)

lemma lowerUnit_dotted: "lowerUnit 0x130 = [0x69, 0x307]"
  by (simp add: lowerUnit_def)

lemma dotted_lower: "latinLower dottedQuery = 0x69 # 0x307 # replicate 99 0x61"
proof -
  have "concat (map lowerUnit (replicate n 0x61)) = replicate n 0x61" for n
    by (induction n) (simp_all add: lowerUnit_a)
  then show ?thesis
    by (simp add: latinLower_def dottedQuery_def lowerUnit_dotted)
qed

text \<open>
  Claim C10 at a query of 100 units, none of them white space or a control character,
  that starts with U+0130: nothing is cut, and lowering the case turns the first unit
  into two, so the result has 101 units.
\<close>

theorem sanitizeQuery_exceeds:
  "length dottedQuery = MAX_QUERY_LENGTH
   \<and> length (sanitizeQuery browser (Some dottedQuery)) = 101"
  by (simp add: dotted_sanitized dotted_lower dotted_len MAX_QUERY_LENGTH_def)

end
